theory Spec2Isabelle
  imports Main "HOL-Library.List_Lexorder" "HOL-Library.Monad_Syntax"
    "HOL-Library.Code_Target_Nat"
begin

section \<open>Strings\<close>

text \<open>
  Python's \<open>str\<close> is a sequence of code points, and file names and command-line arguments
  are \<open>str\<close> values: they are lists of natural numbers here. \<open>str\<close> turns a literal into
  its code points. Python compares strings by code point, lexicographically, a proper prefix
  first: this is the order of \<open>List_Lexorder\<close> over the natural numbers.

  In a \<open>str\<close> pattern \<open>\d\<close> accepts every character of Unicode category Nd. In the Unicode
  data of the interpreter (version 14.0.0 for Python 3.11) these are 66 runs of ten
  consecutive code points, each starting at the digit zero of a script; \<open>decimal_zeros\<close>
  lists those zeros.

  Lower-casing is modelled for the characters whose lower case is an ASCII character or that
  lie below code point 256: the ASCII capitals, the capitals from U+00C0 to U+00DE, and the
  Kelvin sign U+212A, which lowers to \<open>k\<close>. Every other character is left as it is; in
  Python it lowers to text outside ASCII, but for U+0130, which lowers to \<open>i\<close> (alone in the
  pattern engine, followed by a combining dot in \<open>str.lower()\<close>). The script compares
  lower-cased text only with the ASCII literals of the pattern and with \<open>execute\<close>, none of
  which contains an \<open>i\<close>, so the comparisons come out as in Python.
\<close>

type_synonym pystr = "nat list"

definition str :: "string \<Rightarrow> pystr" where
  "str s = map of_char s"

definition decimal_zeros :: "nat list" where
  "decimal_zeros =
     [48, 1632, 1776, 1984, 2406, 2534, 2662, 2790, 2918, 3046, 3174, 3302, 3430, 3558, 3664,
      3792, 3872, 4160, 4240, 6112, 6160, 6470, 6608, 6784, 6800, 6992, 7088, 7232, 7248, 42528,
      43216, 43264, 43472, 43504, 43600, 44016, 65296, 66720, 68912, 69734, 69872, 69942, 70096,
      70384, 70736, 70864, 71248, 71360, 71472, 71904, 72016, 72784, 73040, 73120, 92768, 92864,
      93008, 120782, 120792, 120802, 120812, 120822, 123200, 123632, 125264, 130032]"

definition is_digit :: "nat \<Rightarrow> bool" where
  \<comment> \<open>what \<open>\d\<close> accepts\<close>
  "is_digit c = list_ex (\<lambda>zero. zero \<le> c \<and> c < zero + 10) decimal_zeros"

definition is_upper :: "nat \<Rightarrow> bool" where
  \<comment> \<open>the capitals below code point 256: A-Z, and U+00C0 to U+00DE without U+00D7\<close>
  "is_upper c = ((65 \<le> c \<and> c \<le> 90) \<or> (192 \<le> c \<and> c \<le> 222 \<and> c \<noteq> 215))"

definition lower_char :: "nat \<Rightarrow> nat" where
  "lower_char c = (if is_upper c then c + 32 else if c = 8490 then 107 else c)"

definition str_lower :: "pystr \<Rightarrow> pystr" where
  \<comment> \<open>\<open>str.lower()\<close>\<close>
  "str_lower s = map lower_char s"

fun str_nat :: "nat \<Rightarrow> pystr" where
  \<comment> \<open>how an f-string formats a non-negative integer: decimal, no leading zero\<close>
  "str_nat n = (if n < 10 then [48 + n]
                else str_nat (n div 10) @ [48 + n mod 10])"

declare str_nat.simps [simp del]

section \<open>The pattern\<close>

text \<open>
  \<^verbatim>\<open>PATTERN = re.compile(r'(\d{4})-(\d{2})-(\d{2})-(\d{2})-(\d{2})-(\d{2})_photo_[\d\.]+_MB(\.jpg)$', re.IGNORECASE)\<close>

  The pattern is only ever used through \<open>PATTERN.match\<close>, which anchors it at the start of
  the string. Each piece of the pattern is a function from the remaining input to the
  matched text and the rest. No piece leaves a choice to backtracking: the counted
  repetitions have a fixed width, and the greedy class \<open>[\d\.]+\<close> is followed by \<open>_\<close>,
  which is not in the class, so only its longest run can be followed by a match.
\<close>

record match_groups =
  year :: pystr
  month :: pystr
  day :: pystr
  hour :: pystr
  minute :: pystr
  second :: pystr
  extension :: pystr

fun digits_n :: "nat \<Rightarrow> pystr \<Rightarrow> (pystr \<times> pystr) option" where
  \<comment> \<open>\<open>\d{n}\<close>\<close>
  "digits_n 0 s = Some ([], s)"
| "digits_n (Suc n) [] = None"
| "digits_n (Suc n) (c # s) =
     (if is_digit c
      then (case digits_n n s of None \<Rightarrow> None | Some (d, r) \<Rightarrow> Some (c # d, r))
      else None)"

fun literal_ci :: "pystr \<Rightarrow> pystr \<Rightarrow> (pystr \<times> pystr) option" where
  \<comment> \<open>a literal under \<open>re.IGNORECASE\<close>: the matched text keeps its own case\<close>
  "literal_ci [] s = Some ([], s)"
| "literal_ci (p # ps) [] = None"
| "literal_ci (p # ps) (c # s) =
     (if lower_char c = lower_char p
      then (case literal_ci ps s of None \<Rightarrow> None | Some (t, r) \<Rightarrow> Some (c # t, r))
      else None)"

definition in_class :: "nat \<Rightarrow> bool" where
  \<comment> \<open>\<open>[\d\.]\<close>\<close>
  "in_class c = (is_digit c \<or> [c] = str ''.'')"

definition class_plus :: "pystr \<Rightarrow> (pystr \<times> pystr) option" where
  \<comment> \<open>\<open>[\d\.]+\<close>, greedy\<close>
  "class_plus s = (if takeWhile in_class s = [] then None
                   else Some (takeWhile in_class s, dropWhile in_class s))"

definition at_end :: "pystr \<Rightarrow> bool" where
  \<comment> \<open>\<open>$\<close> without \<open>re.MULTILINE\<close>: the end of the string, or just before a final newline\<close>
  "at_end s = (s = [] \<or> s = [10])"

definition PATTERN_match :: "pystr \<Rightarrow> match_groups option" where
  "PATTERN_match s0 = do {
     (g1, s1) \<leftarrow> digits_n 4 s0;
     (_, s2) \<leftarrow> literal_ci (str ''-'') s1;
     (g2, s3) \<leftarrow> digits_n 2 s2;
     (_, s4) \<leftarrow> literal_ci (str ''-'') s3;
     (g3, s5) \<leftarrow> digits_n 2 s4;
     (_, s6) \<leftarrow> literal_ci (str ''-'') s5;
     (g4, s7) \<leftarrow> digits_n 2 s6;
     (_, s8) \<leftarrow> literal_ci (str ''-'') s7;
     (g5, s9) \<leftarrow> digits_n 2 s8;
     (_, s10) \<leftarrow> literal_ci (str ''-'') s9;
     (g6, s11) \<leftarrow> digits_n 2 s10;
     (_, s12) \<leftarrow> literal_ci (str ''_photo_'') s11;
     (_, s13) \<leftarrow> class_plus s12;
     (_, s14) \<leftarrow> literal_ci (str ''_MB'') s13;
     (g7, s15) \<leftarrow> literal_ci (str ''.jpg'') s14;
     if at_end s15
     then Some \<lparr>year = g1, month = g2, day = g3, hour = g4, minute = g5, second = g6,
                extension = g7\<rparr>
     else None
   }"

definition matches :: "pystr \<Rightarrow> bool" where
  \<comment> \<open>the truth value of \<open>PATTERN.match(f)\<close>\<close>
  "matches f = (PATTERN_match f \<noteq> None)"

text \<open>What a successful match looks like, stated on the text of the file name.\<close>

definition digit_string :: "nat \<Rightarrow> pystr \<Rightarrow> bool" where
  "digit_string n s = (length s = n \<and> list_all is_digit s)"

definition well_formed :: "match_groups \<Rightarrow> bool" where
  "well_formed m =
     (digit_string 4 (year m) \<and> digit_string 2 (month m) \<and> digit_string 2 (day m)
      \<and> digit_string 2 (hour m) \<and> digit_string 2 (minute m) \<and> digit_string 2 (second m)
      \<and> str_lower (extension m) = str ''.jpg'')"

definition stamp :: "match_groups \<Rightarrow> pystr" where
  "stamp m =
     year m @ str ''-'' @ month m @ str ''-'' @ day m @ str ''-'' @ hour m @ str ''-'' @ minute m @ str ''-'' @ second m"

section \<open>The working directory\<close>

text \<open>
  The directory is flat: a map from the name of an entry to what it names. An entry is
  either something \<open>os.path.exists\<close> reports (a file, a directory, a symbolic link that
  resolves) or a symbolic link whose target does not resolve: \<open>os.listdir\<close> lists such a
  link, \<open>os.path.exists\<close> follows it and answers \<open>False\<close>, and \<open>os.rename\<close> onto its name
  replaces it. \<open>os.rename\<close> raises \<open>OSError\<close> when the source is missing or when the host
  refuses the call, and otherwise moves the entry, replacing whatever the destination named
  before (the POSIX behaviour). Names are compared exactly, as on a case-sensitive file
  system. The host's refusals are a parameter: any function of the directory and the two
  names.
\<close>

datatype entry = Plain nat | DanglingLink nat

type_synonym directory = "pystr \<rightharpoonup> entry"

type_synonym host = "directory \<Rightarrow> pystr \<Rightarrow> pystr \<Rightarrow> bool"

datatype os_error = FileNotFoundError | PermissionError

definition os_path_exists :: "directory \<Rightarrow> pystr \<Rightarrow> bool" where
  "os_path_exists d name =
     (case d name of Some (Plain i) \<Rightarrow> True | Some (DanglingLink i) \<Rightarrow> False | None \<Rightarrow> False)"

definition os_rename :: "host \<Rightarrow> directory \<Rightarrow> pystr \<Rightarrow> pystr \<Rightarrow> os_error + directory" where
  "os_rename refuses d src dst =
     (case d src of
        None \<Rightarrow> Inl FileNotFoundError
      | Some x \<Rightarrow> if refuses d src dst then Inl PermissionError
                  else Inr ((d(src := None))(dst \<mapsto> x)))"

definition os_listdir :: "directory \<Rightarrow> pystr list \<Rightarrow> bool" where
  \<comment> \<open>\<open>files\<close> is a possible result of \<open>os.listdir\<close>: every entry once, in any order\<close>
  "os_listdir d files = (distinct files \<and> set files = dom d)"

section \<open>The script\<close>

datatype py_exception = AttributeError

datatype message =
    NoFilesFound
  | FoundFiles nat
  | WarningSecondMatch pystr
  | CriticalNoExtension pystr
  | Starting string
  | SkippingCorrect pystr
  | ConflictTarget pystr pystr
  | Renaming pystr pystr
  | FailedRename pystr pystr os_error
  | Completed string nat
  | LiveModeActivated

text \<open>
  What a run acts on: the directory, the lines printed so far, and the calls of
  \<open>os.rename\<close> made so far, each with whether it succeeded.
\<close>

record process =
  disk :: directory
  stdout :: "message list"
  rename_calls :: "(pystr \<times> pystr \<times> bool) list"

text \<open>Dictionaries keep insertion order, so they are association lists.\<close>

fun dict_append :: "'k \<Rightarrow> 'v \<Rightarrow> ('k \<times> 'v list) list \<Rightarrow> ('k \<times> 'v list) list" where
  \<comment> \<open>\<open>d[k].append(v)\<close> on a \<open>defaultdict(list)\<close>\<close>
  "dict_append k v [] = [(k, [v])]"
| "dict_append k v ((k', vs) # d) =
     (if k' = k then (k', vs @ [v]) # d else (k', vs) # dict_append k v d)"

fun dict_set :: "'k \<Rightarrow> 'v \<Rightarrow> ('k \<times> 'v) list \<Rightarrow> ('k \<times> 'v) list" where
  \<comment> \<open>\<open>d[k] = v\<close>\<close>
  "dict_set k v [] = [(k, v)]"
| "dict_set k v ((k', v') # d) =
     (if k' = k then (k', v) # d else (k', v') # dict_set k v d)"

definition new_base_name :: "match_groups \<Rightarrow> pystr" where
  "new_base_name m =
     year m @ month m @ day m @ str ''_'' @ hour m @ minute m @ second m @ str ''_photo''"

fun group_loop ::
  "pystr list \<Rightarrow> (pystr \<times> pystr list) list \<Rightarrow> message list
     \<Rightarrow> (pystr \<times> pystr list) list \<times> message list" where
  "group_loop [] timestamp_groups out = (timestamp_groups, out)"
| "group_loop (original_name # rest) timestamp_groups out =
     (case PATTERN_match original_name of
        Some m \<Rightarrow>
          group_loop rest (dict_append (new_base_name m) original_name timestamp_groups) out
      | None \<Rightarrow>
          group_loop rest timestamp_groups (out @ [WarningSecondMatch original_name]))"

fun number_loop ::
  "pystr \<Rightarrow> (nat \<times> pystr) list \<Rightarrow> (pystr \<times> pystr) list \<Rightarrow> message list
     \<Rightarrow> (pystr \<times> pystr) list \<times> message list" where
  "number_loop base [] rename_plan out = (rename_plan, out)"
| "number_loop base ((i, original_name) # rest) rename_plan out =
     (case PATTERN_match original_name of
        Some m \<Rightarrow>
          number_loop base rest
            (dict_set original_name (base @ str ''_'' @ str_nat i @ extension m) rename_plan) out
      | None \<Rightarrow>
          number_loop base rest rename_plan (out @ [CriticalNoExtension original_name]))"

fun plan_loop ::
  "(pystr \<times> pystr list) list \<Rightarrow> (pystr \<times> pystr) list \<Rightarrow> message list
     \<Rightarrow> py_exception + ((pystr \<times> pystr) list \<times> message list)" where
  "plan_loop [] rename_plan out = Inr (rename_plan, out)"
| "plan_loop ((base, originals) # rest) rename_plan out =
     (let sorted_originals = sort originals in
      if length sorted_originals = 1
      then (case PATTERN_match (sorted_originals ! 0) of
              None \<Rightarrow> Inl AttributeError
            | Some m \<Rightarrow>
                plan_loop rest
                  (dict_set (sorted_originals ! 0) (base @ extension m) rename_plan) out)
      else (case number_loop base (enumerate 1 sorted_originals) rename_plan out of
              (rename_plan', out') \<Rightarrow> plan_loop rest rename_plan' out'))"

definition build_plan ::
  "pystr list \<Rightarrow> message list \<Rightarrow> py_exception + ((pystr \<times> pystr) list \<times> message list)" where
  \<comment> \<open>steps 2 and 3, from the matching files to the rename plan\<close>
  "build_plan matching_files out =
     (case group_loop matching_files [] out of
        (timestamp_groups, out') \<Rightarrow> plan_loop timestamp_groups [] out')"

definition execute_pair :: "bool \<Rightarrow> host \<Rightarrow> pystr \<times> pystr \<Rightarrow> process \<Rightarrow> process" where
  \<comment> \<open>the body of the loop of step 4\<close>
  "execute_pair dry_run refuses pair p =
     (case pair of (original, new) \<Rightarrow>
        if original = new
        then p\<lparr>stdout := stdout p @ [SkippingCorrect original]\<rparr>
        else if os_path_exists (disk p) new \<and> new \<noteq> original
        then p\<lparr>stdout := stdout p @ [ConflictTarget new original]\<rparr>
        else if \<not> dry_run
        then (case os_rename refuses (disk p) original new of
                Inr d \<Rightarrow>
                  p\<lparr>disk := d,
                    stdout := stdout p @ [Renaming original new],
                    rename_calls := rename_calls p @ [(original, new, True)]\<rparr>
              | Inl e \<Rightarrow>
                  p\<lparr>stdout := stdout p @ [Renaming original new, FailedRename original new e],
                    rename_calls := rename_calls p @ [(original, new, False)]\<rparr>)
        else p\<lparr>stdout := stdout p @ [Renaming original new]\<rparr>)"

fun execute_loop :: "bool \<Rightarrow> host \<Rightarrow> (pystr \<times> pystr) list \<Rightarrow> process \<Rightarrow> process" where
  "execute_loop dry_run refuses [] p = p"
| "execute_loop dry_run refuses (pair # rest) p =
     execute_loop dry_run refuses rest (execute_pair dry_run refuses pair p)"

definition mode_name :: "bool \<Rightarrow> string" where
  "mode_name dry_run = (if dry_run then ''DRY RUN'' else ''LIVE RENAME'')"

definition rename_files_with_deduplication ::
  "bool \<Rightarrow> host \<Rightarrow> pystr list \<Rightarrow> process \<Rightarrow> py_exception + process" where
  \<comment> \<open>\<open>files\<close> is what \<open>os.listdir('.')\<close> returned\<close>
  "rename_files_with_deduplication dry_run refuses files p =
     (let matching_files = filter matches files in
      if matching_files = []
      then Inr (p\<lparr>stdout := stdout p @ [NoFilesFound]\<rparr>)
      else (case build_plan matching_files (stdout p @ [FoundFiles (length matching_files)]) of
              Inl e \<Rightarrow> Inl e
            | Inr (rename_plan, out) \<Rightarrow>
                (let p' = execute_loop dry_run refuses rename_plan
                            (p\<lparr>stdout := out @ [Starting (mode_name dry_run)]\<rparr>)
                 in Inr (p'\<lparr>stdout := stdout p' @
                             [Completed (mode_name dry_run) (length rename_plan)]\<rparr>))))"

definition is_dry_run :: "pystr list \<Rightarrow> bool" where
  \<comment> \<open>the flag computed under \<open>__main__\<close> from \<open>sys.argv\<close>\<close>
  "is_dry_run argv = (\<not> (length argv > 1 \<and> str_lower (argv ! 1) = str ''execute''))"

definition main :: "pystr list \<Rightarrow> host \<Rightarrow> pystr list \<Rightarrow> process \<Rightarrow> py_exception + process" where
  "main argv refuses files p =
     (if is_dry_run argv
      then rename_files_with_deduplication True refuses files p
      else rename_files_with_deduplication False refuses files
             (p\<lparr>stdout := stdout p @ [LiveModeActivated]\<rparr>))"

definition renames_done :: "(pystr \<times> pystr \<times> bool) list \<Rightarrow> (pystr \<times> pystr) list" where
  \<comment> \<open>the calls of \<open>os.rename\<close> that succeeded\<close>
  "renames_done calls = map (\<lambda>(src, dst, ok). (src, dst)) (filter (\<lambda>(src, dst, ok). ok) calls)"

section \<open>The plan, as the specification describes it\<close>

definition base_key :: "pystr \<Rightarrow> pystr" where
  \<comment> \<open>the key \<open>YYYYMMDD_HHMMSS_photo\<close> of a matching file name\<close>
  "base_key f = (case PATTERN_match f of Some m \<Rightarrow> new_base_name m | None \<Rightarrow> [])"

definition own_extension :: "pystr \<Rightarrow> pystr" where
  \<comment> \<open>the extension as the file name spells it\<close>
  "own_extension f = (case PATTERN_match f of Some m \<Rightarrow> extension m | None \<Rightarrow> [])"

definition spec_group :: "pystr list \<Rightarrow> pystr \<Rightarrow> pystr list" where
  \<comment> \<open>all matched files sharing a base key, sorted ascending\<close>
  "spec_group files k = sort (filter (\<lambda>g. matches g \<and> base_key g = k) files)"

definition spec_new_name :: "pystr \<Rightarrow> nat \<Rightarrow> nat \<Rightarrow> pystr \<Rightarrow> pystr" where
  \<comment> \<open>the new name of the \<open>i\<close>-th member \<open>f\<close> of a group of \<open>n\<close> files with key \<open>k\<close>\<close>
  "spec_new_name k n i f =
     (if n = 1 then k @ own_extension f else k @ str ''_'' @ str_nat i @ own_extension f)"

text \<open>
  The template as the specification words it:
  \<open>YYYY-MM-DD-HH-MM-SS_photo_<decimal-with-optional-fraction>_MB.jpg\<close>, where only the
  extension is compared without regard to case.
\<close>

definition spec_decimal :: "pystr \<Rightarrow> bool" where
  \<comment> \<open>digits, optionally followed by a point and more digits\<close>
  "spec_decimal s =
     (let whole = takeWhile is_digit s; rest = dropWhile is_digit s
      in whole \<noteq> [] \<and>
         (rest = [] \<or> (take 1 rest = str ''.'' \<and> tl rest \<noteq> [] \<and> list_all is_digit (tl rest))))"

definition spec_template :: "pystr \<Rightarrow> bool" where
  "spec_template f =
     (34 \<le> length f
      \<and> digit_string 4 (take 4 f) \<and> take 1 (drop 4 f) = str ''-''
      \<and> digit_string 2 (take 2 (drop 5 f)) \<and> take 1 (drop 7 f) = str ''-''
      \<and> digit_string 2 (take 2 (drop 8 f)) \<and> take 1 (drop 10 f) = str ''-''
      \<and> digit_string 2 (take 2 (drop 11 f)) \<and> take 1 (drop 13 f) = str ''-''
      \<and> digit_string 2 (take 2 (drop 14 f)) \<and> take 1 (drop 16 f) = str ''-''
      \<and> digit_string 2 (take 2 (drop 17 f))
      \<and> take 7 (drop 19 f) = str ''_photo_''
      \<and> spec_decimal (take (length f - 33) (drop 26 f))
      \<and> take 3 (drop (length f - 7) f) = str ''_MB''
      \<and> str_lower (drop (length f - 4) f) = str ''.jpg'')"

text \<open>The loops of steps 2 and 3 as folds, and what the grouping loop maintains.\<close>

definition plan_group :: "pystr \<times> pystr list \<Rightarrow> (pystr \<times> pystr) list \<Rightarrow> (pystr \<times> pystr) list" where
  "plan_group g P = (case g of (k, vs) \<Rightarrow>
     fold (\<lambda>(i, f). dict_set f (spec_new_name k (length vs) i f)) (enumerate 1 (sort vs)) P)"

definition groups_inv :: "(pystr \<times> pystr list) list \<Rightarrow> pystr list \<Rightarrow> bool" where
  "groups_inv g L = (distinct (map fst g)
     \<and> (\<forall>(k, vs)\<in>set g. vs = filter (\<lambda>f. base_key f = k) L \<and> vs \<noteq> [])
     \<and> fst ` set g = base_key ` set L)"

section \<open>Facts about the pattern\<close>

lemma digits_n_code [code]:
  "digits_n n s =
     (if n = 0 then Some ([], s)
      else (case s of [] \<Rightarrow> None
            | c # s' \<Rightarrow>
                if is_digit c
                then (case digits_n (n - 1) s' of None \<Rightarrow> None | Some (d, r) \<Rightarrow> Some (c # d, r))
                else None))"
  by (cases n; cases s) simp_all

lemma digits_n_Some:
  "digits_n n s = Some (d, r) \<longleftrightarrow> s = d @ r \<and> length d = n \<and> (\<forall>c\<in>set d. is_digit c)"
proof (induction n s arbitrary: d r rule: digits_n.induct)
  case (1 s)
  then show ?case by auto
next
  case (2 n)
  then show ?case by auto
next
  case (3 n c s)
  show ?case
  proof (cases "is_digit c")
    case True
    with 3 show ?thesis
      by (cases d) (auto split: option.splits)
  next
    case False
    then show ?thesis by (cases d) auto
  qed
qed

lemma literal_ci_Some:
  "literal_ci p s = Some (t, r) \<longleftrightarrow> s = t @ r \<and> length t = length p \<and> str_lower t = str_lower p"
proof (induction p s arbitrary: t r rule: literal_ci.induct)
  case (1 s)
  then show ?case by (auto simp: str_lower_def)
next
  case (2 p ps)
  then show ?case by (auto simp: str_lower_def)
next
  case (3 p ps c s)
  show ?case
  proof (cases "lower_char c = lower_char p")
    case True
    with 3 show ?thesis
      by (cases t) (auto simp: str_lower_def split: option.splits)
  next
    case False
    then show ?thesis by (cases t) (auto simp: str_lower_def)
  qed
qed

lemma class_plus_Some:
  "class_plus s = Some (t, r) \<longleftrightarrow>
     s = t @ r \<and> t \<noteq> [] \<and> (\<forall>c\<in>set t. in_class c) \<and> (r = [] \<or> \<not> in_class (hd r))"
proof
  assume "class_plus s = Some (t, r)"
  then have t: "t = takeWhile in_class s" and r: "r = dropWhile in_class s" and ne: "t \<noteq> []"
    by (auto simp: class_plus_def split: if_splits)
  show "s = t @ r \<and> t \<noteq> [] \<and> (\<forall>c\<in>set t. in_class c) \<and> (r = [] \<or> \<not> in_class (hd r))"
    using ne hd_dropWhile[of in_class s] unfolding t r
    by (auto dest: set_takeWhileD)
next
  assume a: "s = t @ r \<and> t \<noteq> [] \<and> (\<forall>c\<in>set t. in_class c) \<and> (r = [] \<or> \<not> in_class (hd r))"
  then have "takeWhile in_class s = t" "dropWhile in_class s = r"
    by (cases r; auto simp: takeWhile_append2 dropWhile_append2 takeWhile_eq_all_conv)+
  with a show "class_plus s = Some (t, r)" by (simp add: class_plus_def)
qed

lemma length_str [simp]: "length (str s) = length s"
  by (simp add: str_def)

lemma str_eq_iff [simp]: "str s = str t \<longleftrightarrow> s = t"
  unfolding str_def by (rule inj_map_eq_map) (rule inj_of_char)

lemma str_Nil [simp]: "str [] = []"
  by (simp add: str_def)

lemma str_append [simp]: "str s @ str t = str (s @ t)"
  by (simp add: str_def)

lemma str_take [simp]: "take n (str s) = str (take n s)"
  and str_drop [simp]: "drop n (str s) = str (drop n s)"
  by (simp_all add: str_def take_map drop_map)

lemma str_dash: "str ''-'' = [45]"
  by (simp add: str_def)

lemma digit_bounds: "is_digit c \<Longrightarrow> (48 \<le> c \<and> c \<le> 57) \<or> (1632 \<le> c \<and> c \<le> 130041 \<and> c \<noteq> 8490)"
  by (auto simp: is_digit_def decimal_zeros_def)

lemma lower_char_not_letter:
  assumes "p \<in> set (str ''-_.'')"
  shows "lower_char c = p \<longleftrightarrow> c = p"
  using assms by (auto simp: str_def lower_char_def is_upper_def split: if_splits)

lemma lower_char_sep: "p \<in> set (str ''-_.'') \<Longrightarrow> lower_char p = p"
  by (auto simp: str_def lower_char_def is_upper_def)

lemma literal_1:
  "p \<in> set (str ''-_.'') \<Longrightarrow> literal_ci [p] s = Some (t, r) \<longleftrightarrow> t = [p] \<and> s = p # r"
  by (cases s) (auto simp: lower_char_not_letter lower_char_sep split: option.splits)

lemma lower_literals:
  "str_lower (str ''_photo_'') = str ''_photo_''" "str_lower (str ''_MB'') = str ''_mb''"
  "str_lower (str ''.jpg'') = str ''.jpg''"
  by (simp_all add: str_def str_lower_def lower_char_def is_upper_def)

lemma literal_dash:
  "literal_ci (str ''-'') s = Some (t, r) \<longleftrightarrow> t = str ''-'' \<and> s = str ''-'' @ r"
  unfolding str_dash using literal_1[of 45 s t r] by (simp add: str_def)

lemma digit_not_dash: "is_digit c \<Longrightarrow> literal_ci (str ''-'') (c # s) = None"
proof (cases "literal_ci (str ''-'') (c # s)")
  case None
  then show ?thesis .
next
  case (Some a)
  assume d: "is_digit c"
  obtain t r where "a = (t, r)" by (cases a)
  with Some have "literal_ci (str ''-'') (c # s) = Some (t, r)" by simp
  then have "c # s = str ''-'' @ r" unfolding literal_dash by simp
  then have "c = 45" by (simp add: str_dash)
  with digit_bounds[OF d] show ?thesis by simp
qed

lemma PATTERN_match_SomeD:
  assumes "PATTERN_match f = Some m"
  shows "well_formed m \<and> (\<exists>ph sz mb nl.
        f = stamp m @ ph @ sz @ mb @ extension m @ nl
        \<and> str_lower ph = str ''_photo_'' \<and> sz \<noteq> [] \<and> list_all in_class sz
        \<and> str_lower mb = str ''_mb'' \<and> at_end nl)"
proof -
  from assms obtain g1 g2 g3 g4 g5 g6 g7 ph sz mb s2 s4 s6 s8 s10 s11 s12 s13 s14 s15 where
    d1: "digits_n 4 f = Some (g1, str ''-'' @ s2)" and
    d2: "digits_n 2 s2 = Some (g2, str ''-'' @ s4)" and
    d3: "digits_n 2 s4 = Some (g3, str ''-'' @ s6)" and
    d4: "digits_n 2 s6 = Some (g4, str ''-'' @ s8)" and
    d5: "digits_n 2 s8 = Some (g5, str ''-'' @ s10)" and
    d6: "digits_n 2 s10 = Some (g6, s11)" and
    l1: "literal_ci (str ''_photo_'') s11 = Some (ph, s12)" and
    c: "class_plus s12 = Some (sz, s13)" and
    l2: "literal_ci (str ''_MB'') s13 = Some (mb, s14)" and
    l3: "literal_ci (str ''.jpg'') s14 = Some (g7, s15)" and
    e: "at_end s15" and
    m: "m = \<lparr>year = g1, month = g2, day = g3, hour = g4, minute = g5, second = g6,
                extension = g7\<rparr>"
    by (auto simp: PATTERN_match_def Option.bind_eq_Some_conv literal_dash split: prod.splits if_splits)
  have wf: "well_formed m"
    using d1 d2 d3 d4 d5 d6 l3
    by (simp add: m well_formed_def digit_string_def digits_n_Some literal_ci_Some lower_literals list_all_iff)
  have "f = stamp m @ ph @ sz @ mb @ extension m @ s15"
    using d1 d2 d3 d4 d5 d6 l1 l2 l3 c
    by (simp add: m stamp_def digits_n_Some literal_ci_Some class_plus_Some)
  moreover have "str_lower ph = str ''_photo_''" "str_lower mb = str ''_mb''"
    using l1 l2 by (simp_all add: literal_ci_Some lower_literals)
  moreover have "sz \<noteq> []" "list_all in_class sz"
    using c by (simp_all add: class_plus_Some list_all_iff)
  ultimately show ?thesis using wf e by blast
qed

lemma digits_n_app:
  "length d = n \<Longrightarrow> list_all is_digit d \<Longrightarrow> digits_n n (d @ r) = Some (d, r)"
  by (simp add: digits_n_Some list_all_iff)

lemma literal_ci_app:
  "length t = length p \<Longrightarrow> str_lower t = str_lower p \<Longrightarrow> literal_ci p (t @ r) = Some (t, r)"
  by (simp add: literal_ci_Some)

lemma literal_dash_Cons: "literal_ci (str ''-'') (str ''-'' @ r) = Some (str ''-'', r)"
  by (simp add: literal_dash)

lemma class_plus_app:
  "sz \<noteq> [] \<Longrightarrow> list_all in_class sz \<Longrightarrow> \<not> in_class c \<Longrightarrow>
     class_plus (sz @ c # r) = Some (sz, c # r)"
  by (simp add: class_plus_Some list_all_iff)

lemma str_lower_length: "str_lower s = t \<Longrightarrow> length s = length t"
  by (auto simp: str_lower_def)

lemma PATTERN_match_SomeI:
  assumes wf: "well_formed m"
    and f: "f = stamp m @ ph @ sz @ mb @ extension m @ nl"
    and ph: "str_lower ph = str ''_photo_''" and sz: "sz \<noteq> []" "list_all in_class sz"
    and mb: "str_lower mb = str ''_mb''" and nl: "at_end nl"
  shows "PATTERN_match f = Some m"
proof -
  from mb obtain u mb' where mbc: "mb = u # mb'" and "lower_char u = 95"
    by (cases mb) (auto simp: str_lower_def str_def)
  then have u: "u = 95" using lower_char_not_letter[of 95 u] by (simp add: str_def)
  have nc: "\<not> in_class 95" by (simp add: in_class_def is_digit_def decimal_zeros_def str_def)
  have lens: "length ph = 7" "length mb = 3" "length (extension m) = 4"
    using str_lower_length[OF ph] str_lower_length[OF mb] wf
      str_lower_length[of "extension m" "str ''.jpg''"]
    by (simp_all add: well_formed_def)
  have cp: "class_plus (sz @ mb @ extension m @ nl) = Some (sz, mb @ extension m @ nl)"
    using class_plus_app[OF sz nc] by (simp add: mbc u)
  have l2: "literal_ci (str ''_MB'') (mb @ extension m @ nl) = Some (mb, extension m @ nl)"
    by (rule literal_ci_app) (simp_all add: lens mb lower_literals)
  have l3: "literal_ci (str ''.jpg'') (extension m @ nl) = Some (extension m, nl)"
    using wf by (intro literal_ci_app) (simp_all add: lens lower_literals well_formed_def)
  have l1: "\<And>r. literal_ci (str ''_photo_'') (ph @ r) = Some (ph, r)"
    by (rule literal_ci_app) (simp_all add: lens ph lower_literals)
  show ?thesis
    using wf nl
    by (simp add: PATTERN_match_def f stamp_def well_formed_def digit_string_def
        digits_n_app literal_dash_Cons l1 cp l2 l3)
qed

section \<open>Facts about grouping and planning\<close>

lemma group_loop_fold:
  "\<forall>f\<in>set M. matches f \<Longrightarrow>
   group_loop M g out = (fold (\<lambda>f. dict_append (base_key f) f) M g, out)"
  by (induction M arbitrary: g) (auto simp: matches_def base_key_def)

lemma number_loop_fold:
  "\<forall>f\<in>snd ` set ps. matches f \<Longrightarrow>
   number_loop k ps P out =
     (fold (\<lambda>(i, f). dict_set f (k @ str ''_'' @ str_nat i @ own_extension f)) ps P, out)"
  by (induction ps arbitrary: P) (auto simp: matches_def own_extension_def)

lemma length_1_conv: "length xs = Suc 0 \<longleftrightarrow> (\<exists>x. xs = [x])"
  by (cases xs) auto

lemma plan_loop_fold:
  "\<forall>(k, vs)\<in>set G. \<forall>f\<in>set vs. matches f \<Longrightarrow>
   plan_loop G P out = Inr (fold plan_group G P, out)"
proof (induction G arbitrary: P)
  case Nil
  then show ?case by simp
next
  case (Cons g G)
  obtain k vs where g: "g = (k, vs)" by (cases g)
  from Cons.prems g have m: "\<forall>f\<in>set vs. matches f" by auto
  from Cons.prems have rest: "\<forall>(k, vs)\<in>set G. \<forall>f\<in>set vs. matches f" by auto
  show ?case
  proof (cases "length (sort vs) = 1")
    case True
    then obtain x where x: "sort vs = [x]" by (auto simp: length_1_conv)
    then have "x \<in> set vs" by (metis list.set_intros(1) set_sort)
    with m obtain mm where mm: "PATTERN_match x = Some mm" by (auto simp: matches_def)
    have lv: "length vs = 1" using True by simp
    show ?thesis
      using Cons.IH[OF rest] x mm lv
      by (simp add: g plan_group_def enumerate_simps spec_new_name_def own_extension_def)
  next
    case False
    then have lv: "length vs \<noteq> 1" by simp
    have "\<forall>f\<in>snd ` set (enumerate 1 (sort vs)). matches f"
      using m by (auto simp: enumerate_eq_zip dest: set_zip_rightD)
    from number_loop_fold[OF this]
    show ?thesis
      using Cons.IH[OF rest] False lv
      by (simp add: g plan_group_def spec_new_name_def)
  qed
qed


lemma dict_append_keys:
  "map fst (dict_append k v g) = (if k \<in> fst ` set g then map fst g else map fst g @ [k])"
  by (induction g) (auto simp: rev_image_eqI)

lemma dict_append_mem:
  "distinct (map fst g) \<Longrightarrow>
   (k', vs') \<in> set (dict_append k v g) \<longleftrightarrow>
     (k' \<noteq> k \<and> (k', vs') \<in> set g)
     \<or> (k' = k \<and> ((\<exists>vs. (k, vs) \<in> set g \<and> vs' = vs @ [v]) \<or> (k \<notin> fst ` set g \<and> vs' = [v])))"
proof (induction g)
  case Nil
  then show ?case by auto
next
  case (Cons a g)
  obtain ka va where a: "a = (ka, va)" by (cases a)
  from Cons.prems a have nk: "ka \<notin> fst ` set g" and d: "distinct (map fst g)" by auto
  show ?case
  proof (cases "ka = k")
    case True
    then show ?thesis using nk by (auto simp: a rev_image_eqI)
  next
    case False
    then show ?thesis using Cons.IH[OF d] by (auto simp: a)
  qed
qed

lemma groups_inv_append:
  assumes "groups_inv g L"
  shows "groups_inv (dict_append (base_key v) v g) (L @ [v])"
proof -
  let ?k = "base_key v"
  from assms have d: "distinct (map fst g)"
    and c: "\<And>k vs. (k, vs) \<in> set g \<Longrightarrow> vs = filter (\<lambda>f. base_key f = k) L \<and> vs \<noteq> []"
    and ks: "fst ` set g = base_key ` set L"
    by (auto simp: groups_inv_def)
  have d': "distinct (map fst (dict_append ?k v g))"
    using d by (auto simp: dict_append_keys)
  have ks': "fst ` set (dict_append ?k v g) = base_key ` set (L @ [v])"
  proof -
    have "fst ` set (dict_append ?k v g) = set (map fst (dict_append ?k v g))" by simp
    also have "\<dots> = insert ?k (fst ` set g)" by (auto simp: dict_append_keys)
    finally show ?thesis using ks by auto
  qed
  have c': "vs' = filter (\<lambda>f. base_key f = k') (L @ [v]) \<and> vs' \<noteq> []"
    if m: "(k', vs') \<in> set (dict_append ?k v g)" for k' vs'
  proof -
    from m d consider
        (other) "k' \<noteq> ?k" "(k', vs') \<in> set g"
      | (same) vs where "k' = ?k" "(?k, vs) \<in> set g" "vs' = vs @ [v]"
      | (new) "k' = ?k" "?k \<notin> fst ` set g" "vs' = [v]"
      by (auto simp: dict_append_mem)
    then show ?thesis
    proof cases
      case other
      then show ?thesis using c[of k' vs'] by auto
    next
      case same
      then show ?thesis using c[of ?k vs] by auto
    next
      case new
      then have "filter (\<lambda>f. base_key f = ?k) L = []"
        using ks by (force simp: filter_empty_conv image_iff)
      with new show ?thesis by simp
    qed
  qed
  show ?thesis unfolding groups_inv_def using d' ks' c' by blast
qed

lemma groups_inv_fold:
  "groups_inv g L \<Longrightarrow> groups_inv (fold (\<lambda>f. dict_append (base_key f) f) M g) (L @ M)"
proof (induction M arbitrary: g L)
  case Nil
  then show ?case by simp
next
  case (Cons v M)
  from Cons.IH[OF groups_inv_append[OF Cons.prems, of v]] show ?case by simp
qed

lemma groups_inv_final: "groups_inv (fold (\<lambda>f. dict_append (base_key f) f) M []) M"
  using groups_inv_fold[of "[]" "[]" M] by (simp add: groups_inv_def)


lemma map_of_dict_set: "map_of (dict_set k v d) = (map_of d)(k \<mapsto> v)"
  by (induction d) (auto simp: fun_eq_iff)

lemma dict_set_keys:
  "map fst (dict_set k v d) = (if k \<in> fst ` set d then map fst d else map fst d @ [k])"
  by (induction d) (auto simp: rev_image_eqI)

lemma dict_set_distinct: "distinct (map fst d) \<Longrightarrow> distinct (map fst (dict_set k v d))"
  by (simp add: dict_set_keys)

lemma dict_set_subset: "set (dict_set k v d) \<subseteq> insert (k, v) (set d)"
  by (induction d) (auto split: if_splits)

lemma number_fold_other:
  "x \<notin> snd ` set ps \<Longrightarrow>
   map_of (fold (\<lambda>(i, f). dict_set f (nm i f)) ps P) x = map_of P x"
  by (induction ps arbitrary: P) (auto simp: map_of_dict_set)

lemma number_fold_member:
  "distinct (map snd ps) \<Longrightarrow> (i, x) \<in> set ps \<Longrightarrow>
   map_of (fold (\<lambda>(i, f). dict_set f (nm i f)) ps P) x = Some (nm i x)"
proof (induction ps arbitrary: P)
  case Nil
  then show ?case by simp
next
  case (Cons p ps)
  obtain j y where p: "p = (j, y)" by (cases p)
  show ?case
  proof (cases "(i, x) = (j, y)")
    case True
    with Cons.prems p have "x \<notin> snd ` set ps" by auto
    from number_fold_other[OF this, of nm "dict_set x (nm i x) P"] True show ?thesis
      by (simp add: p map_of_dict_set)
  next
    case False
    with Cons.prems p have "(i, x) \<in> set ps" "distinct (map snd ps)" by auto
    from Cons.IH[OF this(2) this(1)] show ?thesis by (simp add: p)
  qed
qed

lemma number_fold_distinct:
  "distinct (map fst P) \<Longrightarrow> distinct (map fst (fold (\<lambda>(i, f). dict_set f (nm i f)) ps P))"
  by (induction ps arbitrary: P) (auto simp: dict_set_distinct)

lemma plan_group_other:
  "x \<notin> set vs \<Longrightarrow> map_of (plan_group (k, vs) P) x = map_of P x"
  unfolding plan_group_def prod.case
  by (rule number_fold_other) (auto simp: enumerate_eq_zip dest: set_zip_rightD)

lemma plan_group_member:
  assumes "distinct vs" "i < length vs"
  shows "map_of (plan_group (k, vs) P) (sort vs ! i)
           = Some (spec_new_name k (length vs) (Suc i) (sort vs ! i))"
  unfolding plan_group_def prod.case
proof (rule number_fold_member)
  show "distinct (map snd (enumerate 1 (sort vs)))"
    using assms by simp
  show "(Suc i, sort vs ! i) \<in> set (enumerate 1 (sort vs))"
    using assms by (auto simp: in_set_enumerate_eq)
qed

lemma plan_group_distinct:
  "distinct (map fst P) \<Longrightarrow> distinct (map fst (plan_group g P))"
  unfolding plan_group_def by (cases g) (simp add: number_fold_distinct)

lemma plan_fold_other:
  "\<forall>g\<in>set G. x \<notin> set (snd g) \<Longrightarrow> map_of (fold plan_group G P) x = map_of P x"
proof (induction G arbitrary: P)
  case Nil
  then show ?case by simp
next
  case (Cons g G)
  obtain k vs where g: "g = (k, vs)" by (cases g)
  from Cons.prems g have "x \<notin> set vs" "\<forall>g\<in>set G. x \<notin> set (snd g)" by auto
  then show ?case using Cons.IH[of "plan_group (k, vs) P"] by (simp add: g plan_group_other)
qed

lemma plan_fold_distinct:
  "distinct (map fst P) \<Longrightarrow> distinct (map fst (fold plan_group G P))"
  by (induction G arbitrary: P) (auto simp: plan_group_distinct)

lemma plan_fold_member:
  assumes G: "G = G1 @ (k, vs) # G2"
    and later: "\<forall>g\<in>set G2. sort vs ! i \<notin> set (snd g)"
    and "distinct vs" "i < length vs"
  shows "map_of (fold plan_group G P) (sort vs ! i)
           = Some (spec_new_name k (length vs) (Suc i) (sort vs ! i))"
  using plan_fold_other[OF later] plan_group_member[OF assms(3,4)]
  by (simp add: G)


lemma spec_group_all_match:
  "\<forall>f\<in>set M. matches f \<Longrightarrow> spec_group M k = sort (filter (\<lambda>f. base_key f = k) M)"
  unfolding spec_group_def by (rule arg_cong[where f = sort]) (auto intro: filter_cong)

lemma build_plan_lookup:
  assumes dM: "distinct M" and mM: "\<forall>f\<in>set M. matches f"
  shows "\<exists>P. build_plan M out = Inr (P, out) \<and> distinct (map fst P)
      \<and> (\<forall>x. x \<notin> set M \<longrightarrow> map_of P x = None)
      \<and> (\<forall>k i. i < length (spec_group M k) \<longrightarrow>
            map_of P (spec_group M k ! i)
              = Some (spec_new_name k (length (spec_group M k)) (Suc i) (spec_group M k ! i)))"
proof -
  define G where "G = fold (\<lambda>f. dict_append (base_key f) f) M []"
  define P where "P = fold plan_group G []"
  have inv: "groups_inv G M" unfolding G_def by (rule groups_inv_final)
  then have dG: "distinct (map fst G)"
    and cG: "\<And>k vs. (k, vs) \<in> set G \<Longrightarrow> vs = filter (\<lambda>f. base_key f = k) M"
    and kG: "fst ` set G = base_key ` set M"
    by (auto simp: groups_inv_def)
  have sub: "\<And>k vs. (k, vs) \<in> set G \<Longrightarrow> set vs \<subseteq> set M"
    using cG by force
  have allm: "\<forall>(k, vs)\<in>set G. \<forall>f\<in>set vs. matches f"
    using sub mM by blast
  have g1: "group_loop M [] out = (G, out)"
    unfolding G_def by (rule group_loop_fold[OF mM])
  have g2: "plan_loop G [] out = Inr (P, out)"
    unfolding P_def by (rule plan_loop_fold[OF allm])
  have run: "build_plan M out = Inr (P, out)"
    by (simp add: build_plan_def g1 g2)
  have dP: "distinct (map fst P)"
    unfolding P_def by (rule plan_fold_distinct) simp
  have other: "map_of P x = None" if "x \<notin> set M" for x
  proof -
    have "\<forall>g\<in>set G. x \<notin> set (snd g)"
    proof
      fix g assume g: "g \<in> set G"
      obtain k vs where "g = (k, vs)" by (cases g)
      with g sub[of k vs] that show "x \<notin> set (snd g)" by auto
    qed
    from plan_fold_other[OF this, of "[]"] show ?thesis unfolding P_def by simp
  qed
  have member: "map_of P (spec_group M k ! i)
              = Some (spec_new_name k (length (spec_group M k)) (Suc i) (spec_group M k ! i))"
    if i: "i < length (spec_group M k)" for k i
  proof -
    define vs where "vs = filter (\<lambda>f. base_key f = k) M"
    have sg: "spec_group M k = sort vs"
      unfolding vs_def by (rule spec_group_all_match[OF mM])
    have iv: "i < length vs" using i sg by simp
    then have "vs \<noteq> []" by auto
    then have "k \<in> base_key ` set M" unfolding vs_def by (auto simp: filter_empty_conv)
    with kG have "k \<in> fst ` set G" by simp
    then obtain vs' where "(k, vs') \<in> set G" by auto
    with cG[of k vs'] have inG: "(k, vs) \<in> set G" by (simp add: vs_def)
    then obtain G1 G2 where G: "G = G1 @ (k, vs) # G2" by (auto dest: split_list)
    have "sort vs ! i \<in> set (sort vs)" using iv by (intro nth_mem) simp
    then have el: "sort vs ! i \<in> set vs" by simp
    then have bk: "base_key (sort vs ! i) = k" unfolding vs_def by simp
    have later: "\<forall>g\<in>set G2. sort vs ! i \<notin> set (snd g)"
    proof
      fix g assume g: "g \<in> set G2"
      obtain k' vs' where g': "g = (k', vs')" by (cases g)
      from g g' G have "(k', vs') \<in> set G" by simp
      from cG[OF this] have vs': "vs' = filter (\<lambda>f. base_key f = k') M" .
      from dG have "distinct (map fst (G1 @ (k, vs) # G2))" unfolding G .
      then have "k \<notin> fst ` set G2" by simp
      with g g' have "k' \<noteq> k" by (metis fst_conv imageI)
      with bk show "sort vs ! i \<notin> set (snd g)" unfolding g' vs' by simp
    qed
    have dv: "distinct vs" unfolding vs_def using dM by simp
    from plan_fold_member[OF G later dv iv, of "[]"] show ?thesis
      unfolding P_def sg by simp
  qed
  show ?thesis
    using run dP other member by (intro exI[of _ P] conjI allI impI)
qed

lemma spec_group_filter: "spec_group (filter matches files) k = spec_group files k"
  unfolding spec_group_def by (rule arg_cong[where f = sort]) (auto intro: filter_cong)

lemma spec_group_set:
  "set (spec_group files k) = {g \<in> set files. matches g \<and> base_key g = k}"
  by (auto simp: spec_group_def)

lemma spec_group_sorted: "sorted (spec_group files k)"
  by (simp add: spec_group_def)

lemma spec_group_distinct: "distinct files \<Longrightarrow> distinct (spec_group files k)"
  by (simp add: spec_group_def)

lemma spec_group_cong:
  assumes "distinct M1" "distinct M2" "set M1 = set M2"
  shows "spec_group M1 k = spec_group M2 k"
proof (rule sorted_distinct_set_unique)
  show "sorted (spec_group M1 k)" "sorted (spec_group M2 k)" by (rule spec_group_sorted)+
  show "distinct (spec_group M1 k)" "distinct (spec_group M2 k)"
    using assms by (simp_all add: spec_group_distinct)
  show "set (spec_group M1 k) = set (spec_group M2 k)"
    using assms by (simp add: spec_group_set)
qed

lemma base_key_Some: "PATTERN_match f = Some m \<Longrightarrow> base_key f = new_base_name m"
  by (simp add: base_key_def)

lemma own_extension_Some: "PATTERN_match f = Some m \<Longrightarrow> own_extension f = extension m"
  by (simp add: own_extension_def)

lemma new_base_name_no_match:
  assumes "well_formed m"
  shows "PATTERN_match (new_base_name m @ rest) = None"
proof -
  from assms have y: "length (year m) = 4" "list_all is_digit (year m)"
    and mo: "length (month m) = 2" "list_all is_digit (month m)"
    by (simp_all add: well_formed_def digit_string_def)
  from mo obtain c cs where c: "month m = c # cs" "is_digit c"
    by (cases "month m") auto
  have "digits_n 4 (new_base_name m @ rest) = Some (year m, c # cs @ day m @ str ''_'' @ hour m @ minute m @ second m @ str ''_photo'' @ rest)"
    using digits_n_app[OF y(1) y(2)] by (simp add: new_base_name_def c)
  then show ?thesis
    by (simp add: PATTERN_match_def digit_not_dash[OF c(2)])
qed

lemma planned_name_no_match: "matches f \<Longrightarrow> \<not> matches (base_key f @ rest)"
proof -
  assume "matches f"
  then obtain m where m: "PATTERN_match f = Some m" by (auto simp: matches_def)
  from PATTERN_match_SomeD[OF m] have "well_formed m" by simp
  from new_base_name_no_match[OF this, of rest] show ?thesis
    by (simp add: matches_def base_key_Some[OF m])
qed

lemma number_fold_all:
  "\<forall>p\<in>set P. Q p \<Longrightarrow> \<forall>(i, f)\<in>set ps. Q (f, nm i f) \<Longrightarrow>
   \<forall>p\<in>set (fold (\<lambda>(i, f). dict_set f (nm i f)) ps P). Q p"
proof (induction ps arbitrary: P)
  case Nil
  then show ?case by simp
next
  case (Cons a ps)
  obtain i f where a: "a = (i, f)" by (cases a)
  have "\<forall>p\<in>set (dict_set f (nm i f) P). Q p"
    using dict_set_subset[of f "nm i f" P] Cons.prems a by auto
  from Cons.IH[OF this] Cons.prems(2) show ?case by (simp add: a)
qed

lemma plan_group_all:
  assumes "\<forall>p\<in>set P. Q p" and "\<forall>f\<in>set vs. \<forall>i. Q (f, spec_new_name k (length vs) i f)"
  shows "\<forall>p\<in>set (plan_group (k, vs) P). Q p"
  unfolding plan_group_def prod.case
proof (rule number_fold_all[OF assms(1)])
  show "\<forall>(i, f)\<in>set (enumerate 1 (sort vs)). Q (f, spec_new_name k (length vs) i f)"
    using assms(2) by (auto simp: enumerate_eq_zip dest: set_zip_rightD)
qed

lemma plan_fold_all:
  "\<forall>p\<in>set P. Q p \<Longrightarrow>
   \<forall>(k, vs)\<in>set G. \<forall>f\<in>set vs. \<forall>i. Q (f, spec_new_name k (length vs) i f) \<Longrightarrow>
   \<forall>p\<in>set (fold plan_group G P). Q p"
proof (induction G arbitrary: P)
  case Nil
  then show ?case by simp
next
  case (Cons g G)
  obtain k vs where g: "g = (k, vs)" by (cases g)
  from Cons.prems(2) g have here: "\<forall>f\<in>set vs. \<forall>i. Q (f, spec_new_name k (length vs) i f)"
    and rest: "\<forall>(k, vs)\<in>set G. \<forall>f\<in>set vs. \<forall>i. Q (f, spec_new_name k (length vs) i f)"
    by auto
  from Cons.IH[OF plan_group_all[OF Cons.prems(1) here] rest] show ?case by (simp add: g)
qed

lemma build_plan_shape:
  assumes mM: "\<forall>f\<in>set M. matches f"
  shows "\<exists>P. build_plan M out = Inr (P, out)
     \<and> (\<forall>(original, new)\<in>set P. original \<in> set M \<and> (\<exists>rest. new = base_key original @ rest))"
proof -
  define G where "G = fold (\<lambda>f. dict_append (base_key f) f) M []"
  define P where "P = fold plan_group G []"
  define Q where "Q = (\<lambda>(original, new). original \<in> set M \<and> (\<exists>rest. new = base_key original @ rest))"
  have inv: "groups_inv G M" unfolding G_def by (rule groups_inv_final)
  then have cG: "\<And>k vs. (k, vs) \<in> set G \<Longrightarrow> vs = filter (\<lambda>f. base_key f = k) M"
    by (auto simp: groups_inv_def)
  have mem: "\<And>k vs f. (k, vs) \<in> set G \<Longrightarrow> f \<in> set vs \<Longrightarrow> f \<in> set M \<and> base_key f = k"
    using cG by force
  have allm: "\<forall>(k, vs)\<in>set G. \<forall>f\<in>set vs. matches f"
    using mem mM by blast
  have g1: "group_loop M [] out = (G, out)"
    unfolding G_def by (rule group_loop_fold[OF mM])
  have g2: "plan_loop G [] out = Inr (P, out)"
    unfolding P_def by (rule plan_loop_fold[OF allm])
  have run: "build_plan M out = Inr (P, out)"
    by (simp add: build_plan_def g1 g2)
  have "\<forall>(k, vs)\<in>set G. \<forall>f\<in>set vs. \<forall>i. Q (f, spec_new_name k (length vs) i f)"
  proof (intro ballI allI, clarify)
    fix k vs f i assume "(k, vs) \<in> set G" "f \<in> set vs"
    from mem[OF this] show "Q (f, spec_new_name k (length vs) i f)"
      by (simp add: Q_def spec_new_name_def)
  qed
  from plan_fold_all[of "[]" Q, OF _ this] have "\<forall>p\<in>set P. Q p" by (simp add: P_def)
  with run show ?thesis unfolding Q_def by blast
qed

lemma matches_iff:
  "matches f \<longleftrightarrow>
     (\<exists>m ph sz mb nl. f = stamp m @ ph @ sz @ mb @ extension m @ nl
        \<and> well_formed m \<and> str_lower ph = str ''_photo_'' \<and> sz \<noteq> [] \<and> list_all in_class sz
        \<and> str_lower mb = str ''_mb'' \<and> at_end nl)"
proof
  assume "matches f"
  then obtain m where "PATTERN_match f = Some m" by (auto simp: matches_def)
  from PATTERN_match_SomeD[OF this] show "\<exists>m ph sz mb nl. f = stamp m @ ph @ sz @ mb @ extension m @ nl
        \<and> well_formed m \<and> str_lower ph = str ''_photo_'' \<and> sz \<noteq> [] \<and> list_all in_class sz
        \<and> str_lower mb = str ''_mb'' \<and> at_end nl" by blast
next
  assume "\<exists>m ph sz mb nl. f = stamp m @ ph @ sz @ mb @ extension m @ nl
        \<and> well_formed m \<and> str_lower ph = str ''_photo_'' \<and> sz \<noteq> [] \<and> list_all in_class sz
        \<and> str_lower mb = str ''_mb'' \<and> at_end nl"
  then obtain m ph sz mb nl where "well_formed m" "f = stamp m @ ph @ sz @ mb @ extension m @ nl"
        "str_lower ph = str ''_photo_''" "sz \<noteq> []" "list_all in_class sz"
        "str_lower mb = str ''_mb''" "at_end nl" by blast
  from PATTERN_match_SomeI[OF this] show "matches f" by (simp add: matches_def)
qed

lemma stamp_length: "well_formed m \<Longrightarrow> length (stamp m) = 19"
  by (simp add: well_formed_def digit_string_def stamp_def)

lemma new_base_name_stamp:
  "well_formed m \<Longrightarrow>
   new_base_name m = take 4 (stamp m) @ take 2 (drop 5 (stamp m)) @ take 2 (drop 8 (stamp m))
     @ str ''_'' @ take 2 (drop 11 (stamp m)) @ take 2 (drop 14 (stamp m))
     @ take 2 (drop 17 (stamp m)) @ str ''_photo''"
  by (simp add: well_formed_def digit_string_def stamp_def new_base_name_def)

lemma match_take_19:
  assumes "PATTERN_match f = Some m"
  shows "take 19 f = stamp m"
proof -
  from PATTERN_match_SomeD[OF assms] obtain rest where "well_formed m" "f = stamp m @ rest"
    by blast
  then show ?thesis by (simp add: stamp_length)
qed

section \<open>Facts about execution\<close>

lemma execute_loop_append:
  "execute_loop dry_run refuses (ps @ qs) p
     = execute_loop dry_run refuses qs (execute_loop dry_run refuses ps p)"
  by (induction ps arbitrary: p) simp_all

lemma execute_pair_dry:
  "disk (execute_pair True refuses pair p) = disk p"
  "rename_calls (execute_pair True refuses pair p) = rename_calls p"
  by (cases pair; simp add: execute_pair_def)+

lemma execute_loop_dry:
  "disk (execute_loop True refuses rename_plan p) = disk p
   \<and> rename_calls (execute_loop True refuses rename_plan p) = rename_calls p"
  by (induction rename_plan arbitrary: p) (simp_all add: execute_pair_dry)

lemma build_plan_total:
  "\<exists>rename_plan. build_plan (filter matches files) out = Inr (rename_plan, out)"
  using build_plan_shape[of "filter matches files" out] by auto

lemma run_total:
  "\<exists>p'. rename_files_with_deduplication dry_run refuses files p = Inr p'"
proof (cases "filter matches files = []")
  case True
  then show ?thesis by (simp add: rename_files_with_deduplication_def)
next
  case False
  from build_plan_total[of files "stdout p @ [FoundFiles (length (filter matches files))]"]
  obtain P where "build_plan (filter matches files)
      (stdout p @ [FoundFiles (length (filter matches files))])
    = Inr (P, stdout p @ [FoundFiles (length (filter matches files))])" by blast
  with False show ?thesis by (simp add: rename_files_with_deduplication_def Let_def)
qed

lemma execute_pair_keeps_plain:
  assumes "name \<noteq> original" and "disk p name = Some (Plain i)"
  shows "disk (execute_pair dry_run refuses (original, new) p) name = Some (Plain i)"
  using assms
  by (auto simp: execute_pair_def os_rename_def os_path_exists_def split: option.splits)

lemma execute_loop_keeps_plain:
  "name \<notin> fst ` set rename_plan \<Longrightarrow> disk p name = Some (Plain i) \<Longrightarrow>
   disk (execute_loop dry_run refuses rename_plan p) name = Some (Plain i)"
proof (induction rename_plan arbitrary: p)
  case Nil
  then show ?case by simp
next
  case (Cons pair rest)
  obtain original new where pair: "pair = (original, new)" by (cases pair)
  from Cons.prems pair have "name \<noteq> original" "name \<notin> fst ` set rest" by auto
  from Cons.IH[OF this(2) execute_pair_keeps_plain[OF this(1) Cons.prems(2)]]
  show ?case by (simp add: pair)
qed

lemma os_path_exists_Plain: "os_path_exists d name \<longleftrightarrow> (\<exists>i. d name = Some (Plain i))"
  by (auto simp: os_path_exists_def split: option.splits entry.splits)

lemma execute_loop_keeps_existing:
  "name \<notin> fst ` set rename_plan \<Longrightarrow> os_path_exists (disk p) name \<Longrightarrow>
   os_path_exists (disk (execute_loop dry_run refuses rename_plan p)) name"
  unfolding os_path_exists_Plain by (auto dest: execute_loop_keeps_plain)

lemma execute_pair_absent_stays:
  assumes "name \<noteq> new" and "disk p name = None"
  shows "disk (execute_pair dry_run refuses (original, new) p) name = None"
  using assms
  by (auto simp: execute_pair_def os_rename_def split: option.splits)

lemma execute_loop_absent_stays:
  "name \<notin> snd ` set rename_plan \<Longrightarrow> disk p name = None \<Longrightarrow>
   disk (execute_loop dry_run refuses rename_plan p) name = None"
proof (induction rename_plan arbitrary: p)
  case Nil
  then show ?case by simp
next
  case (Cons pair rest)
  obtain original new where pair: "pair = (original, new)" by (cases pair)
  from Cons.prems pair have "name \<noteq> new" "name \<notin> snd ` set rest" by auto
  from Cons.IH[OF this(2) execute_pair_absent_stays[OF this(1) Cons.prems(2)]]
  show ?case by (simp add: pair)
qed

lemma execute_pair_calls_grow:
  "set (rename_calls p) \<subseteq> set (rename_calls (execute_pair dry_run refuses pair p))"
  by (cases pair) (auto simp: execute_pair_def split: sum.splits)

lemma execute_loop_calls_grow:
  "set (rename_calls p) \<subseteq> set (rename_calls (execute_loop dry_run refuses rename_plan p))"
proof (induction rename_plan arbitrary: p)
  case Nil
  then show ?case by simp
next
  case (Cons pair rest)
  from execute_pair_calls_grow[of p dry_run refuses pair]
    Cons.IH[of "execute_pair dry_run refuses pair p"]
  show ?case by auto
qed

lemma execute_pair_outcome:
  assumes "original \<noteq> new"
  shows "os_path_exists (disk p) new
           \<and> disk (execute_pair False refuses (original, new) p) = disk p
       \<or> (original, new, False)
             \<in> set (rename_calls (execute_pair False refuses (original, new) p))
       \<or> disk (execute_pair False refuses (original, new) p) original = None"
  using assms
  by (auto simp: execute_pair_def os_rename_def split: option.splits)

lemma execute_loop_left_in_place:
  assumes "\<forall>(original, new)\<in>set rename_plan.
             original \<noteq> new \<and> matches original \<and> \<not> matches new"
    and "(original, new) \<in> set rename_plan"
    and "disk (execute_loop False refuses rename_plan p) original \<noteq> None"
  shows "os_path_exists (disk (execute_loop False refuses rename_plan p)) new
       \<or> (original, new, False)
            \<in> set (rename_calls (execute_loop False refuses rename_plan p))"
  using assms
proof (induction rename_plan arbitrary: p)
  case Nil
  then show ?case by simp
next
  case (Cons pair rest)
  obtain src dst where pair: "pair = (src, dst)" by (cases pair)
  let ?p' = "execute_pair False refuses (src, dst) p"
  from Cons.prems(1) pair have here: "src \<noteq> dst" "matches src" "\<not> matches dst"
    and rest: "\<forall>(original, new)\<in>set rest.
             original \<noteq> new \<and> matches original \<and> \<not> matches new"
    by auto
  have keys: "dst \<notin> fst ` set rest" using rest here(3) by force
  have targets: "src \<notin> snd ` set rest" using rest here(2) by force
  from Cons.prems(3) have left: "disk (execute_loop False refuses rest ?p') original \<noteq> None"
    by (simp add: pair)
  show ?case
  proof (cases "(original, new) = (src, dst)")
    case True
    from execute_pair_outcome[OF here(1), of p refuses]
    consider (conflict) "os_path_exists (disk ?p') dst"
      | (failed) "(src, dst, False) \<in> set (rename_calls ?p')"
      | (renamed) "disk ?p' src = None"
      by auto
    then show ?thesis
    proof cases
      case conflict
      from execute_loop_keeps_existing[OF keys this, of False refuses] True
      show ?thesis by (simp add: pair)
    next
      case failed
      with execute_loop_calls_grow[of ?p' False refuses rest] True
      show ?thesis by (auto simp: pair)
    next
      case renamed
      from execute_loop_absent_stays[OF targets this, of False refuses] left True
      show ?thesis by simp
    qed
  next
    case False
    with Cons.prems(2) pair have "(original, new) \<in> set rest" by auto
    from Cons.IH[OF rest this left] show ?thesis by (simp add: pair)
  qed
qed

lemma execute_pair_idle:
  assumes "original = new \<or> os_path_exists (disk p) new \<or> refuses (disk p) original new
           \<or> disk p original = None"
  shows "disk (execute_pair False refuses (original, new) p) = disk p
       \<and> renames_done (rename_calls (execute_pair False refuses (original, new) p))
           = renames_done (rename_calls p)"
  using assms
  by (auto simp: execute_pair_def os_rename_def renames_done_def split: option.splits)

lemma execute_loop_idle:
  assumes "\<forall>(original, new)\<in>set rename_plan.
             original = new \<or> os_path_exists (disk p) new \<or> refuses (disk p) original new
             \<or> disk p original = None"
  shows "disk (execute_loop False refuses rename_plan p) = disk p
       \<and> renames_done (rename_calls (execute_loop False refuses rename_plan p))
           = renames_done (rename_calls p)"
  using assms
proof (induction rename_plan arbitrary: p)
  case Nil
  then show ?case by simp
next
  case (Cons pair rest)
  obtain src dst where pair: "pair = (src, dst)" by (cases pair)
  let ?p' = "execute_pair False refuses (src, dst) p"
  from Cons.prems pair have "src = dst \<or> os_path_exists (disk p) dst \<or> refuses (disk p) src dst
      \<or> disk p src = None" by auto
  from execute_pair_idle[of src dst p refuses, OF this] have same: "disk ?p' = disk p"
    and calls: "renames_done (rename_calls ?p') = renames_done (rename_calls p)" by auto
  from Cons.prems have "\<forall>(original, new)\<in>set rest.
             original = new \<or> os_path_exists (disk ?p') new \<or> refuses (disk ?p') original new
             \<or> disk ?p' original = None"
    unfolding same by auto
  from Cons.IH[OF this] same calls show ?case by (simp add: pair)
qed

lemma plan_pairs_differ:
  assumes "build_plan (filter matches files) out = Inr (rename_plan, out')"
    and "(original, new) \<in> set rename_plan"
  shows "matches original \<and> \<not> matches new \<and> new \<noteq> original \<and> original \<in> set files"
proof -
  from build_plan_shape[of "filter matches files" out] assms(1) have
    "\<forall>(original, new)\<in>set rename_plan. original \<in> set (filter matches files)
        \<and> (\<exists>rest. new = base_key original @ rest)"
    by auto
  with assms(2) obtain rest where o: "original \<in> set files" "matches original"
    and n: "new = base_key original @ rest" by auto
  from planned_name_no_match[OF o(2), of rest] n have "\<not> matches new" by simp
  with o show ?thesis by auto
qed

lemma execute_pair_no_skip:
  "original \<noteq> new \<Longrightarrow>
   SkippingCorrect x \<in> set (stdout (execute_pair dry_run refuses (original, new) p)) \<Longrightarrow>
   SkippingCorrect x \<in> set (stdout p)"
  by (auto simp: execute_pair_def split: if_splits sum.splits)

lemma execute_loop_no_skip:
  "\<forall>(original, new)\<in>set rename_plan. original \<noteq> new \<Longrightarrow>
   SkippingCorrect x \<in> set (stdout (execute_loop dry_run refuses rename_plan p)) \<Longrightarrow>
   SkippingCorrect x \<in> set (stdout p)"
proof (induction rename_plan arbitrary: p)
  case Nil
  then show ?case by simp
next
  case (Cons pair rest)
  obtain original new where pair: "pair = (original, new)" by (cases pair)
  from Cons.prems(1) pair have ne: "original \<noteq> new"
    and r: "\<forall>(original, new)\<in>set rest. original \<noteq> new" by auto
  from Cons.prems(2) have "SkippingCorrect x
      \<in> set (stdout (execute_loop dry_run refuses rest (execute_pair dry_run refuses (original, new) p)))"
    by (simp add: pair)
  from execute_pair_no_skip[OF ne Cons.IH[OF r this]] show ?case .
qed

lemma same_group_same_name:
  assumes d1: "distinct files" and d2: "distinct files'"
    and b1: "build_plan (filter matches files) out1 = Inr (plan1, out1')"
    and b2: "build_plan (filter matches files') out2 = Inr (plan2, out2')"
    and pair: "(original, new) \<in> set plan2"
    and same: "spec_group files' (base_key original) = spec_group files (base_key original)"
  shows "(original, new) \<in> set plan1"
proof -
  let ?M1 = "filter matches files" and ?M2 = "filter matches files'"
  let ?k = "base_key original"
  have dM: "distinct ?M1" "distinct ?M2" using d1 d2 by simp_all
  have mM: "\<forall>f\<in>set ?M1. matches f" "\<forall>f\<in>set ?M2. matches f" by simp_all
  from build_plan_lookup[OF dM(1) mM(1), of out1] b1 have
    member1: "\<And>k i. i < length (spec_group ?M1 k) \<Longrightarrow>
            map_of plan1 (spec_group ?M1 k ! i)
              = Some (spec_new_name k (length (spec_group ?M1 k)) (Suc i) (spec_group ?M1 k ! i))"
    by auto
  from build_plan_lookup[OF dM(2) mM(2), of out2] b2 have
    dP2: "distinct (map fst plan2)" and
    member2: "\<And>k i. i < length (spec_group ?M2 k) \<Longrightarrow>
            map_of plan2 (spec_group ?M2 k ! i)
              = Some (spec_new_name k (length (spec_group ?M2 k)) (Suc i) (spec_group ?M2 k ! i))"
    by auto
  from plan_pairs_differ[OF b2 pair] have o: "matches original" "original \<in> set files'" by auto
  have g: "spec_group ?M2 ?k = spec_group ?M1 ?k"
    using same by (simp add: spec_group_filter)
  from o have "original \<in> set (spec_group ?M2 ?k)" by (simp add: spec_group_filter spec_group_set)
  then obtain i where i: "i < length (spec_group ?M2 ?k)" and x: "spec_group ?M2 ?k ! i = original"
    by (auto simp: in_set_conv_nth)
  from dP2 pair have "map_of plan2 original = Some new" by (rule map_of_is_SomeI)
  with member2[OF i] have n: "new = spec_new_name ?k (length (spec_group ?M2 ?k)) (Suc i) original"
    unfolding x by simp
  from i member1[of i ?k] have "map_of plan1 original = Some new"
    unfolding g[symmetric] x n by simp
  then show ?thesis by (rule map_of_SomeD)
qed

section \<open>Mode selection\<close>

lemma lower_char_execute:
  "lower_char c = 101 \<longleftrightarrow> c = 101 \<or> c = 69"
  "lower_char c = 120 \<longleftrightarrow> c = 120 \<or> c = 88"
  "lower_char c = 99 \<longleftrightarrow> c = 99 \<or> c = 67"
  "lower_char c = 117 \<longleftrightarrow> c = 117 \<or> c = 85"
  "lower_char c = 116 \<longleftrightarrow> c = 116 \<or> c = 84"
  by (auto simp: lower_char_def is_upper_def split: if_splits)

lemma str_lower_execute:
  "str_lower a = str ''execute'' \<longleftrightarrow>
     (\<exists>c1 c2 c3 c4 c5 c6 c7. a = [c1, c2, c3, c4, c5, c6, c7]
        \<and> c1 \<in> set (str ''eE'') \<and> c2 \<in> set (str ''xX'') \<and> c3 \<in> set (str ''eE'')
        \<and> c4 \<in> set (str ''cC'') \<and> c5 \<in> set (str ''uU'') \<and> c6 \<in> set (str ''tT'')
        \<and> c7 \<in> set (str ''eE''))"
  apply (simp add: str_def str_lower_def map_eq_Cons_conv lower_char_execute)
  apply (rule iffI; clarsimp)
  done

text \<open>
  C9, as stated: apply mode is selected if and only if the first command-line argument is
  the literal token \<open>execute\<close>. The script lower-cases the argument before comparing, so
  \<open>EXECUTE\<close>, which is not the literal token, selects apply mode as well.
\<close>

theorem mode_selection_counterexample:
  "\<not> is_dry_run [str ''rename.py'', str ''EXECUTE''] \<and> str ''EXECUTE'' \<noteq> str ''execute''"
  by code_simp

text \<open>
  C9, amended: the script runs in apply mode if and only if there is a first command-line
  argument and it spells \<open>execute\<close> in any mix of upper and lower case; with no argument,
  or any other argument, it runs in preview mode.
\<close>

theorem mode_selection:
  "main argv refuses files p =
     (if 1 < length argv \<and>
         (\<exists>c1 c2 c3 c4 c5 c6 c7. argv ! 1 = [c1, c2, c3, c4, c5, c6, c7]
            \<and> c1 \<in> set (str ''eE'') \<and> c2 \<in> set (str ''xX'') \<and> c3 \<in> set (str ''eE'')
            \<and> c4 \<in> set (str ''cC'') \<and> c5 \<in> set (str ''uU'') \<and> c6 \<in> set (str ''tT'')
            \<and> c7 \<in> set (str ''eE''))
      then rename_files_with_deduplication False refuses files
             (p\<lparr>stdout := stdout p @ [LiveModeActivated]\<rparr>)
      else rename_files_with_deduplication True refuses files p)"
proof -
  have swap: "\<And>Q (a :: py_exception + process) b. (if \<not> Q then a else b) = (if Q then b else a)"
    by simp
  show ?thesis
    unfolding main_def is_dry_run_def str_lower_execute swap ..
qed

theorem mode_selection_witness:
  "main [str ''rename.py'', str ''Execute''] (\<lambda>d src dst. False) []
       \<lparr>disk = Map.empty, stdout = [], rename_calls = []\<rparr>
     = Inr \<lparr>disk = Map.empty, stdout = [LiveModeActivated, NoFilesFound], rename_calls = []\<rparr>
   \<and> main [str ''rename.py''] (\<lambda>d src dst. False) []
       \<lparr>disk = Map.empty, stdout = [], rename_calls = []\<rparr>
     = Inr \<lparr>disk = Map.empty, stdout = [NoFilesFound], rename_calls = []\<rparr>"
  using mode_selection [of "[str ''rename.py'', str ''Execute'']" "\<lambda>d src dst. False" "[]"
      "\<lparr>disk = Map.empty, stdout = [], rename_calls = []\<rparr>"]
    mode_selection [of "[str ''rename.py'']" "\<lambda>d src dst. False" "[]"
      "\<lparr>disk = Map.empty, stdout = [], rename_calls = []\<rparr>"]
  by (simp add: rename_files_with_deduplication_def str_def)

section \<open>The rename plan\<close>




text \<open>
  C5: two listings that hold the same set of matching file names, in whatever order and
  among whatever other entries, give the same rename plan as a mapping from original name
  to new name.
\<close>

theorem plan_depends_on_set_only:
  assumes "distinct files1" and "distinct files2"
    and "set (filter matches files1) = set (filter matches files2)"
  shows "\<exists>plan1 plan2.
     build_plan (filter matches files1) out1 = Inr (plan1, out1)
     \<and> build_plan (filter matches files2) out2 = Inr (plan2, out2)
     \<and> map_of plan1 = map_of plan2"
proof -
  let ?M1 = "filter matches files1" and ?M2 = "filter matches files2"
  have d: "distinct ?M1" "distinct ?M2" using assms by simp_all
  have m: "\<forall>f\<in>set ?M1. matches f" "\<forall>f\<in>set ?M2. matches f" by simp_all
  from build_plan_lookup[OF d(1) m(1), of out1] obtain P1 where
    run1: "build_plan ?M1 out1 = Inr (P1, out1)" and
    other1: "\<And>x. x \<notin> set ?M1 \<Longrightarrow> map_of P1 x = None" and
    member1: "\<And>k i. i < length (spec_group ?M1 k) \<Longrightarrow>
            map_of P1 (spec_group ?M1 k ! i)
              = Some (spec_new_name k (length (spec_group ?M1 k)) (Suc i) (spec_group ?M1 k ! i))"
    by blast
  from build_plan_lookup[OF d(2) m(2), of out2] obtain P2 where
    run2: "build_plan ?M2 out2 = Inr (P2, out2)" and
    other2: "\<And>x. x \<notin> set ?M2 \<Longrightarrow> map_of P2 x = None" and
    member2: "\<And>k i. i < length (spec_group ?M2 k) \<Longrightarrow>
            map_of P2 (spec_group ?M2 k ! i)
              = Some (spec_new_name k (length (spec_group ?M2 k)) (Suc i) (spec_group ?M2 k ! i))"
    by blast
  have g: "\<And>k. spec_group ?M2 k = spec_group ?M1 k"
    by (rule spec_group_cong[OF d(2) d(1) assms(3)[symmetric]])
  have "map_of P1 x = map_of P2 x" for x
  proof (cases "x \<in> set ?M1")
    case False
    then have "x \<notin> set ?M2" using assms(3) by blast
    with False show ?thesis using other1[of x] other2[of x] by simp
  next
    case True
    then have "x \<in> set (spec_group ?M1 (base_key x))" by (simp add: spec_group_set)
    then obtain i where i: "i < length (spec_group ?M1 (base_key x))"
      and x: "spec_group ?M1 (base_key x) ! i = x"
      by (auto simp: in_set_conv_nth)
    from member1[OF i] member2[of i "base_key x"] i show ?thesis
      unfolding g x by simp
  qed
  then have "map_of P1 = map_of P2" by (rule ext)
  with run1 run2 show ?thesis by blast
qed

theorem plan_depends_on_set_only_witness:
  "\<exists>plan1 plan2.
     build_plan (filter matches
        [str ''2022-01-14-14-33-00_photo_12.683_MB.jpg'', str ''2022-01-14-14-33-00_photo_9.1_MB.JPG'',
         str ''vacation.jpg'']) [] = Inr (plan1, [])
     \<and> build_plan (filter matches
        [str ''2022-01-14-14-33-00_photo_9.1_MB.JPG'', str ''2022-01-14-14-33-00_photo_12.683_MB.jpg''])
        [] = Inr (plan2, [])
     \<and> map_of plan1 = map_of plan2"
proof -
  have m: "matches (str ''2022-01-14-14-33-00_photo_12.683_MB.jpg'')"
    "matches (str ''2022-01-14-14-33-00_photo_9.1_MB.JPG'')" "\<not> matches (str ''vacation.jpg'')"
    by code_simp+
  show ?thesis
    by (rule plan_depends_on_set_only) (auto simp: m)
qed

section \<open>Which entries are selected\<close>

text \<open>
  C6, as stated: an entry is selected if and only if it conforms to the template
  \<open>YYYY-MM-DD-HH-MM-SS_photo_<decimal-with-optional-fraction>_MB.jpg\<close>, only the extension
  being compared without regard to case. The pattern is compiled with \<open>re.IGNORECASE\<close> as a
  whole, its size field is any run of digits and points, and \<open>$\<close> also matches before a
  final newline: each of the three names below is selected and does not conform.
\<close>

theorem pattern_template_counterexample:
  "matches (str ''2022-01-14-14-33-00_PHOTO_12.683_mb.jpg'')
   \<and> \<not> spec_template (str ''2022-01-14-14-33-00_PHOTO_12.683_mb.jpg'')
   \<and> matches (str ''2022-01-14-14-33-00_photo_1.2..3_MB.jpg'')
   \<and> \<not> spec_template (str ''2022-01-14-14-33-00_photo_1.2..3_MB.jpg'')
   \<and> matches (str ''2022-01-14-14-33-00_photo_12.683_MB.jpg'' @ [10])
   \<and> \<not> spec_template (str ''2022-01-14-14-33-00_photo_12.683_MB.jpg'' @ [10])"
  by code_simp

text \<open>
  C6, amended: an entry is selected if and only if it consists of the date and time as
  \<open>YYYY-MM-DD-HH-MM-SS\<close>, then \<open>_photo_\<close>, a non-empty run of digits and points, \<open>_MB\<close> and
  \<open>.jpg\<close>, optionally followed by one final newline, where a digit is any character that
  \<open>\d\<close> accepts (a decimal digit of any script) and the letters of \<open>_photo_\<close>, \<open>_MB\<close> and
  \<open>.jpg\<close> are compared without regard to case. Entries that are not selected play no part
  in the run: the run is the same with them removed from the listing, and they are not keys
  of the plan.
\<close>

theorem pattern_characterisation:
  "(matches f \<longleftrightarrow>
     (\<exists>m ph sz mb nl. f = stamp m @ ph @ sz @ mb @ extension m @ nl
        \<and> well_formed m \<and> str_lower ph = str ''_photo_'' \<and> sz \<noteq> [] \<and> list_all in_class sz
        \<and> str_lower mb = str ''_mb'' \<and> at_end nl))
   \<and> rename_files_with_deduplication dry_run refuses files p
       = rename_files_with_deduplication dry_run refuses (filter matches files) p
   \<and> (\<exists>rename_plan. build_plan (filter matches files) out = Inr (rename_plan, out)
        \<and> (\<not> matches f \<longrightarrow> f \<notin> fst ` set rename_plan))"
proof -
  from build_plan_shape[of "filter matches files" out] obtain P where
    run: "build_plan (filter matches files) out = Inr (P, out)" and
    sh: "\<forall>(original, new)\<in>set P. original \<in> set (filter matches files)
            \<and> (\<exists>rest. new = base_key original @ rest)"
    by auto
  have "\<not> matches f \<longrightarrow> f \<notin> fst ` set P" using sh by force
  moreover have "rename_files_with_deduplication dry_run refuses files p
       = rename_files_with_deduplication dry_run refuses (filter matches files) p"
    by (simp add: rename_files_with_deduplication_def)
  ultimately show ?thesis using run matches_iff[of f] by blast
qed


theorem pattern_characterisation_witness:
  "\<not> matches (str ''vacation.jpg'')
   \<and> (\<exists>rename_plan.
         build_plan (filter matches [str ''2023-05-01-09-00-00_photo_3.2_MB.jpg'', str ''vacation.jpg'']) []
           = Inr (rename_plan, [])
         \<and> str ''vacation.jpg'' \<notin> fst ` set rename_plan)
   \<and> (\<exists>m ph sz mb nl.
         ([1634, 1632, 1634, 1635] @ str ''-05-01-09-00-00_PHOTO_3..2_mb.JPG'') = stamp m @ ph @ sz @ mb @ extension m @ nl
         \<and> well_formed m \<and> str_lower ph = str ''_photo_'' \<and> sz \<noteq> [] \<and> list_all in_class sz
         \<and> str_lower mb = str ''_mb'' \<and> at_end nl)"
proof -
  have v: "\<not> matches (str ''vacation.jpg'')" and m: "matches ([1634, 1632, 1634, 1635] @ str ''-05-01-09-00-00_PHOTO_3..2_mb.JPG'')"
    by code_simp+
  show ?thesis
    using v m
      pattern_characterisation[of "str ''vacation.jpg''" False "\<lambda>d src dst. False"
        "[str ''2023-05-01-09-00-00_photo_3.2_MB.jpg'', str ''vacation.jpg'']"
        "\<lparr>disk = Map.empty, stdout = [], rename_calls = []\<rparr>" "[]"]
      pattern_characterisation[of "[1634, 1632, 1634, 1635] @ str ''-05-01-09-00-00_PHOTO_3..2_mb.JPG''" False
        "\<lambda>d src dst. False" "[]"
        "\<lparr>disk = Map.empty, stdout = [], rename_calls = []\<rparr>" "[]"]
    by blast
qed

text \<open>
  C7: the base key of a matching file name is made of its six date and time fields only, so
  two matching names with the same date and time part (the first 19 characters) have the
  same key whatever their size and the case of their extension; the extension captured is
  the text of the file name itself, and it ends the planned new name unchanged.
\<close>

theorem base_key_purity:
  assumes "PATTERN_match f = Some m" and "PATTERN_match f' = Some m'"
  shows "base_key f = year m @ month m @ day m @ str ''_'' @ hour m @ minute m @ second m @ str ''_photo''
     \<and> (take 19 f' = take 19 f \<longrightarrow> base_key f' = base_key f)
     \<and> (\<exists>before nl. f = before @ extension m @ nl \<and> at_end nl)
     \<and> (distinct files \<and> f \<in> set files \<longrightarrow>
          (\<exists>rename_plan number.
              build_plan (filter matches files) out = Inr (rename_plan, out)
              \<and> map_of rename_plan f = Some (base_key f @ number @ extension m)))"
proof -
  from PATTERN_match_SomeD[OF assms(1)] obtain ph sz mb nl where
    wf: "well_formed m" and f: "f = stamp m @ ph @ sz @ mb @ extension m @ nl" and nl: "at_end nl"
    by blast
  from PATTERN_match_SomeD[OF assms(2)] have wf': "well_formed m'" by blast
  have k: "base_key f = new_base_name m" "base_key f' = new_base_name m'"
    using assms by (simp_all add: base_key_Some)
  have 1: "base_key f = year m @ month m @ day m @ str ''_'' @ hour m @ minute m @ second m @ str ''_photo''"
    by (simp add: k new_base_name_def)
  have 2: "base_key f' = base_key f" if "take 19 f' = take 19 f"
  proof -
    from that have "stamp m' = stamp m"
      using match_take_19[OF assms(1)] match_take_19[OF assms(2)] by simp
    then show ?thesis
      unfolding k new_base_name_stamp[OF wf] new_base_name_stamp[OF wf'] by simp
  qed
  have 3: "\<exists>before nl. f = before @ extension m @ nl \<and> at_end nl"
  proof (intro exI conjI)
    show "f = (stamp m @ ph @ sz @ mb) @ extension m @ nl" using f by simp
    show "at_end nl" by (rule nl)
  qed
  have 4: "\<exists>rename_plan number.
              build_plan (filter matches files) out = Inr (rename_plan, out)
              \<and> map_of rename_plan f = Some (base_key f @ number @ extension m)"
    if d: "distinct files" and fin: "f \<in> set files"
  proof -
    let ?M = "filter matches files"
    have mf: "matches f" using assms(1) by (simp add: matches_def)
    have dM: "distinct ?M" using d by simp
    have mM: "\<forall>f\<in>set ?M. matches f" by simp
    from build_plan_lookup[OF dM mM, of out] obtain P where
      run: "build_plan ?M out = Inr (P, out)" and
      member: "\<And>k i. i < length (spec_group ?M k) \<Longrightarrow>
            map_of P (spec_group ?M k ! i)
              = Some (spec_new_name k (length (spec_group ?M k)) (Suc i) (spec_group ?M k ! i))"
      by blast
    have "f \<in> set (spec_group ?M (base_key f))" using fin mf by (simp add: spec_group_set)
    then obtain i where i: "i < length (spec_group ?M (base_key f))"
      and x: "spec_group ?M (base_key f) ! i = f"
      by (auto simp: in_set_conv_nth)
    from member[OF i] have "map_of P f
       = Some (spec_new_name (base_key f) (length (spec_group ?M (base_key f))) (Suc i) f)"
      unfolding x .
    then have "\<exists>number. map_of P f = Some (base_key f @ number @ extension m)"
      unfolding spec_new_name_def own_extension_Some[OF assms(1)]
      by (cases "length (spec_group ?M (base_key f)) = 1") (auto intro: exI[of _ "[]"])
    with run show ?thesis by blast
  qed
  from 1 2 3 4 show ?thesis by blast
qed


theorem base_key_purity_witness:
  "base_key (str ''2022-01-14-14-33-00_photo_12.683_MB.jpg'')
     = base_key (str ''2022-01-14-14-33-00_photo_9.1_MB.JPG'')
   \<and> base_key (str ''2022-01-14-14-33-00_photo_9.1_MB.JPG'') = str ''20220114_143300_photo''
   \<and> (\<exists>rename_plan number.
         build_plan (filter matches
            [str ''2022-01-14-14-33-00_photo_12.683_MB.jpg'', str ''2022-01-14-14-33-00_photo_9.1_MB.JPG''])
            [] = Inr (rename_plan, [])
         \<and> map_of rename_plan (str ''2022-01-14-14-33-00_photo_9.1_MB.JPG'')
               = Some (str ''20220114_143300_photo'' @ number @ str ''.JPG''))"
proof -
  let ?a = "str ''2022-01-14-14-33-00_photo_12.683_MB.jpg''"
  let ?b = "str ''2022-01-14-14-33-00_photo_9.1_MB.JPG''"
  let ?ma = "\<lparr>year = str ''2022'', month = str ''01'', day = str ''14'', hour = str ''14'', minute = str ''33'',
              second = str ''00'', extension = str ''.jpg''\<rparr>"
  let ?mb = "\<lparr>year = str ''2022'', month = str ''01'', day = str ''14'', hour = str ''14'', minute = str ''33'',
              second = str ''00'', extension = str ''.JPG''\<rparr>"
  have a: "PATTERN_match ?a = Some ?ma" and b: "PATTERN_match ?b = Some ?mb"
    by code_simp+
  note t = base_key_purity[OF b a, of "[?a, ?b]" "[]"]
  have d: "distinct [?a, ?b] \<and> ?b \<in> set [?a, ?b]" by simp
  from t have "base_key ?b = year ?mb @ month ?mb @ day ?mb @ str ''_'' @ hour ?mb @ minute ?mb
                 @ second ?mb @ str ''_photo''"
    by (rule conjunct1)
  then have k: "base_key ?b = str ''20220114_143300_photo''" by simp
  from t have "take 19 ?a = take 19 ?b \<longrightarrow> base_key ?a = base_key ?b" by blast
  then have e: "base_key ?a = base_key ?b" by simp
  from t d have "\<exists>rename_plan number.
         build_plan (filter matches [?a, ?b]) [] = Inr (rename_plan, [])
         \<and> map_of rename_plan ?b = Some (base_key ?b @ number @ extension ?mb)"
    by blast
  then have "\<exists>rename_plan number.
         build_plan (filter matches [?a, ?b]) [] = Inr (rename_plan, [])
         \<and> map_of rename_plan ?b = Some (str ''20220114_143300_photo'' @ number @ str ''.JPG'')"
    unfolding k by simp
  with k e show ?thesis by blast
qed

section \<open>Execution\<close>

text \<open>
  C3: a run in preview mode returns normally, makes no call of \<open>os.rename\<close> and leaves the
  directory as it was.
\<close>

theorem preview_never_mutates:
  "\<exists>p'. rename_files_with_deduplication True refuses files p = Inr p'
        \<and> disk p' = disk p \<and> rename_calls p' = rename_calls p"
proof (cases "filter matches files = []")
  case True
  then show ?thesis by (simp add: rename_files_with_deduplication_def)
next
  case False
  from build_plan_total[of files "stdout p @ [FoundFiles (length (filter matches files))]"]
  obtain P where "build_plan (filter matches files)
      (stdout p @ [FoundFiles (length (filter matches files))])
    = Inr (P, stdout p @ [FoundFiles (length (filter matches files))])" by blast
  with False show ?thesis
    by (simp add: rename_files_with_deduplication_def Let_def execute_loop_dry)
qed

theorem preview_never_mutates_witness:
  "\<exists>p'. rename_files_with_deduplication True (\<lambda>d src dst. False)
           [str ''2023-05-01-09-00-00_photo_3.2_MB.jpg'', str ''vacation.jpg'']
           \<lparr>disk = [str ''2023-05-01-09-00-00_photo_3.2_MB.jpg'' \<mapsto> Plain 1, str ''vacation.jpg'' \<mapsto> Plain 2],
            stdout = [], rename_calls = []\<rparr> = Inr p'
        \<and> disk p' = [str ''2023-05-01-09-00-00_photo_3.2_MB.jpg'' \<mapsto> Plain 1, str ''vacation.jpg'' \<mapsto> Plain 2]
        \<and> rename_calls p' = []"
  using preview_never_mutates[of "\<lambda>d src dst. False"
           "[str ''2023-05-01-09-00-00_photo_3.2_MB.jpg'', str ''vacation.jpg'']"
           "\<lparr>disk = [str ''2023-05-01-09-00-00_photo_3.2_MB.jpg'' \<mapsto> Plain 1, str ''vacation.jpg'' \<mapsto> Plain 2],
            stdout = [], rename_calls = []\<rparr>"]
  by simp

text \<open>
  C2: a pair is renamed only if no entry named \<open>new\<close> exists at the time of the check, so
  the program never overwrites an existing entry other than the source of the rename. The
  script makes the check with \<open>os.path.exists\<close>, to prevent accidental overwrites as its
  comment says, and that function follows symbolic links: a link whose target does not
  resolve is an entry of the directory that the check does not see. Below, the planned name
  is the name of such a link: no conflict is reported, \<open>os.rename\<close> is called and succeeds,
  and the link is replaced by the renamed file.
\<close>

theorem dangling_link_is_overwritten:
  "os_listdir [str ''2023-05-01-09-00-00_photo_3.2_MB.jpg'' \<mapsto> Plain 1, str ''20230501_090000_photo.jpg'' \<mapsto> DanglingLink 2]
      [str ''2023-05-01-09-00-00_photo_3.2_MB.jpg'', str ''20230501_090000_photo.jpg'']
   \<and> rename_files_with_deduplication False (\<lambda>d src dst. False)
       [str ''2023-05-01-09-00-00_photo_3.2_MB.jpg'', str ''20230501_090000_photo.jpg'']
       \<lparr>disk = [str ''2023-05-01-09-00-00_photo_3.2_MB.jpg'' \<mapsto> Plain 1, str ''20230501_090000_photo.jpg'' \<mapsto> DanglingLink 2],
        stdout = [], rename_calls = []\<rparr>
     = Inr \<lparr>disk = [str ''2023-05-01-09-00-00_photo_3.2_MB.jpg'' \<mapsto> Plain 1, str ''20230501_090000_photo.jpg'' \<mapsto> DanglingLink 2]
                    (str ''2023-05-01-09-00-00_photo_3.2_MB.jpg'' := None, str ''20230501_090000_photo.jpg'' \<mapsto> Plain 1),
            stdout = [FoundFiles 1, Starting ''LIVE RENAME'',
                      Renaming (str ''2023-05-01-09-00-00_photo_3.2_MB.jpg'') (str ''20230501_090000_photo.jpg''),
                      Completed ''LIVE RENAME'' 1],
            rename_calls = [(str ''2023-05-01-09-00-00_photo_3.2_MB.jpg'', str ''20230501_090000_photo.jpg'', True)]\<rparr>"
proof -
  let ?a = "str ''2023-05-01-09-00-00_photo_3.2_MB.jpg''"
  have m: "filter matches [?a, str ''20230501_090000_photo.jpg''] = [?a]" by code_simp
  have b: "build_plan [?a] [FoundFiles (Suc 0)]
      = Inr ([(?a, str ''20230501_090000_photo.jpg'')], [FoundFiles (Suc 0)])"
    by code_simp
  have l: "os_listdir [?a \<mapsto> Plain 1, str ''20230501_090000_photo.jpg'' \<mapsto> DanglingLink 2] [?a, str ''20230501_090000_photo.jpg'']"
    by (auto simp: os_listdir_def)
  have r: "rename_files_with_deduplication False (\<lambda>d src dst. False) [?a, str ''20230501_090000_photo.jpg'']
       \<lparr>disk = [?a \<mapsto> Plain 1, str ''20230501_090000_photo.jpg'' \<mapsto> DanglingLink 2], stdout = [], rename_calls = []\<rparr>
     = Inr \<lparr>disk = [?a \<mapsto> Plain 1, str ''20230501_090000_photo.jpg'' \<mapsto> DanglingLink 2](?a := None, str ''20230501_090000_photo.jpg'' \<mapsto> Plain 1),
            stdout = [FoundFiles 1, Starting ''LIVE RENAME'', Renaming ?a (str ''20230501_090000_photo.jpg''),
                      Completed ''LIVE RENAME'' 1],
            rename_calls = [(?a, str ''20230501_090000_photo.jpg'', True)]\<rparr>"
    unfolding rename_files_with_deduplication_def m
    by (simp add: b execute_pair_def os_path_exists_def os_rename_def mode_name_def)
  from l r show ?thesis by blast
qed

text \<open>
  C8: when the rename of one pair fails in apply mode, the failure is reported for that pair,
  the directory is left as it was before that pair, and the loop goes on with the remaining
  pairs from there; the run as a whole returns normally on every input.
\<close>

theorem rename_failure_is_isolated:
  assumes "p1 = execute_loop False refuses before p"
    and "original \<noteq> new" and "\<not> os_path_exists (disk p1) new"
    and "os_rename refuses (disk p1) original new = Inl e"
  shows "execute_loop False refuses (before @ (original, new) # after) p
           = execute_loop False refuses after
               (p1\<lparr>stdout := stdout p1 @ [Renaming original new, FailedRename original new e],
                   rename_calls := rename_calls p1 @ [(original, new, False)]\<rparr>)
     \<and> disk (p1\<lparr>stdout := stdout p1 @ [Renaming original new, FailedRename original new e],
                   rename_calls := rename_calls p1 @ [(original, new, False)]\<rparr>) = disk p1
     \<and> (\<exists>p'. rename_files_with_deduplication False refuses files p = Inr p')"
  using assms run_total[of False refuses files p]
  by (simp add: execute_loop_append execute_pair_def)

theorem rename_failure_is_isolated_witness:
  "stdout (execute_loop False (\<lambda>d src dst. src = str ''2022-01-14-14-33-00_photo_12.683_MB.jpg'')
      [(str ''2022-01-14-14-33-00_photo_12.683_MB.jpg'', str ''20220114_143300_photo_1.jpg''),
       (str ''2022-01-14-14-33-00_photo_9.1_MB.JPG'', str ''20220114_143300_photo_2.JPG'')]
      \<lparr>disk = [str ''2022-01-14-14-33-00_photo_12.683_MB.jpg'' \<mapsto> Plain 1,
               str ''2022-01-14-14-33-00_photo_9.1_MB.JPG'' \<mapsto> Plain 2],
       stdout = [], rename_calls = []\<rparr>)
    = [Renaming (str ''2022-01-14-14-33-00_photo_12.683_MB.jpg'') (str ''20220114_143300_photo_1.jpg''),
       FailedRename (str ''2022-01-14-14-33-00_photo_12.683_MB.jpg'') (str ''20220114_143300_photo_1.jpg'')
         PermissionError,
       Renaming (str ''2022-01-14-14-33-00_photo_9.1_MB.JPG'') (str ''20220114_143300_photo_2.JPG'')]
   \<and> rename_calls (execute_loop False
      (\<lambda>d src dst. src = str ''2022-01-14-14-33-00_photo_12.683_MB.jpg'')
      [(str ''2022-01-14-14-33-00_photo_12.683_MB.jpg'', str ''20220114_143300_photo_1.jpg''),
       (str ''2022-01-14-14-33-00_photo_9.1_MB.JPG'', str ''20220114_143300_photo_2.JPG'')]
      \<lparr>disk = [str ''2022-01-14-14-33-00_photo_12.683_MB.jpg'' \<mapsto> Plain 1,
               str ''2022-01-14-14-33-00_photo_9.1_MB.JPG'' \<mapsto> Plain 2],
       stdout = [], rename_calls = []\<rparr>)
    = [(str ''2022-01-14-14-33-00_photo_12.683_MB.jpg'', str ''20220114_143300_photo_1.jpg'', False),
       (str ''2022-01-14-14-33-00_photo_9.1_MB.JPG'', str ''20220114_143300_photo_2.JPG'', True)]"
proof -
  let ?a = "str ''2022-01-14-14-33-00_photo_12.683_MB.jpg''" and ?n = "str ''20220114_143300_photo_1.jpg''"
  let ?b = "str ''2022-01-14-14-33-00_photo_9.1_MB.JPG''" and ?n2 = "str ''20220114_143300_photo_2.JPG''"
  let ?R = "\<lambda>(d::directory) (src::pystr) (dst::pystr). src = ?a"
  let ?p = "\<lparr>disk = [?a \<mapsto> Plain 1, ?b \<mapsto> Plain 2], stdout = [], rename_calls = []\<rparr>"
  have h1: "?p = execute_loop False ?R [] ?p" by simp
  have h2: "?a \<noteq> ?n" by simp
  have h3: "\<not> os_path_exists (disk ?p) ?n" by (simp add: os_path_exists_def)
  have h4: "os_rename ?R (disk ?p) ?a ?n = Inl PermissionError" by (simp add: os_rename_def)
  from rename_failure_is_isolated[OF h1 h2 h3 h4, of "[(?b, ?n2)]" "[]"]
  show ?thesis
    by (simp add: execute_pair_def os_path_exists_def os_rename_def)
qed

text \<open>
  C10, as stated: the planned new name never equals the original, so the branch for equal
  names is unreachable and every planned pair is either renamed or reported as a conflict.
  The last part fails: in apply mode a pair whose \<open>os.rename\<close> raises is neither renamed
  nor reported as a conflict, and in preview mode no pair is renamed. Below, first the host
  refuses the call in apply mode: the file keeps its name, and the report holds a failure,
  not a conflict; then the same directory in preview mode.
\<close>

theorem planned_name_differs_counterexample:
  "rename_files_with_deduplication False (\<lambda>d src dst. True)
     [str ''2023-05-01-09-00-00_photo_3.2_MB.jpg'']
     \<lparr>disk = [str ''2023-05-01-09-00-00_photo_3.2_MB.jpg'' \<mapsto> Plain 1], stdout = [], rename_calls = []\<rparr>
   = Inr \<lparr>disk = [str ''2023-05-01-09-00-00_photo_3.2_MB.jpg'' \<mapsto> Plain 1],
          stdout = [FoundFiles 1, Starting ''LIVE RENAME'',
                    Renaming (str ''2023-05-01-09-00-00_photo_3.2_MB.jpg'') (str ''20230501_090000_photo.jpg''),
                    FailedRename (str ''2023-05-01-09-00-00_photo_3.2_MB.jpg'')
                      (str ''20230501_090000_photo.jpg'') PermissionError,
                    Completed ''LIVE RENAME'' 1],
          rename_calls = [(str ''2023-05-01-09-00-00_photo_3.2_MB.jpg'',
                           str ''20230501_090000_photo.jpg'', False)]\<rparr>
   \<and> rename_files_with_deduplication True (\<lambda>d src dst. False)
     [str ''2023-05-01-09-00-00_photo_3.2_MB.jpg'']
     \<lparr>disk = [str ''2023-05-01-09-00-00_photo_3.2_MB.jpg'' \<mapsto> Plain 1], stdout = [], rename_calls = []\<rparr>
   = Inr \<lparr>disk = [str ''2023-05-01-09-00-00_photo_3.2_MB.jpg'' \<mapsto> Plain 1],
          stdout = [FoundFiles 1, Starting ''DRY RUN'',
                    Renaming (str ''2023-05-01-09-00-00_photo_3.2_MB.jpg'') (str ''20230501_090000_photo.jpg''),
                    Completed ''DRY RUN'' 1],
          rename_calls = []\<rparr>"
proof -
  let ?a = "str ''2023-05-01-09-00-00_photo_3.2_MB.jpg''"
  have m: "filter matches [?a] = [?a]" by code_simp
  have b: "build_plan [?a] [FoundFiles (Suc 0)]
      = Inr ([(?a, str ''20230501_090000_photo.jpg'')], [FoundFiles (Suc 0)])"
    by code_simp
  show ?thesis
    unfolding rename_files_with_deduplication_def m
    by (simp add: b execute_pair_def os_path_exists_def os_rename_def mode_name_def)
qed

text \<open>
  C10, amended: for every pair of the plan the original matches the pattern and the new name
  does not match it, so it differs from the original and the branch for equal names is never
  taken by the loop; every planned
  pair is either reported as a conflict and left alone, or reaches the rename step, where it
  is reported as \<open>Renaming\<close> and, in apply mode, \<open>os.rename\<close> is called for it.
\<close>

theorem planned_name_differs:
  assumes "build_plan (filter matches files) out = Inr (rename_plan, out')"
    and "(original, new) \<in> set rename_plan"
  shows "matches original \<and> \<not> matches new \<and> new \<noteq> original
     \<and> (os_path_exists (disk p) new
          \<and> execute_pair dry_run refuses (original, new) p
              = p\<lparr>stdout := stdout p @ [ConflictTarget new original]\<rparr>
        \<or> \<not> os_path_exists (disk p) new
          \<and> take (Suc (length (stdout p))) (stdout (execute_pair dry_run refuses (original, new) p))
              = stdout p @ [Renaming original new]
          \<and> (\<not> dry_run \<longrightarrow>
               (\<exists>ok. rename_calls (execute_pair dry_run refuses (original, new) p)
                       = rename_calls p @ [(original, new, ok)])))
     \<and> (\<forall>x. SkippingCorrect x \<in> set (stdout (execute_loop dry_run refuses rename_plan p))
            \<longrightarrow> SkippingCorrect x \<in> set (stdout p))"
proof -
  from plan_pairs_differ[OF assms] have m: "matches original" and nm: "\<not> matches new"
    and ne: "new \<noteq> original" by auto
  have all: "\<forall>(original, new)\<in>set rename_plan. original \<noteq> new"
    using plan_pairs_differ[OF assms(1)] by blast
  have step: "os_path_exists (disk p) new
          \<and> execute_pair dry_run refuses (original, new) p
              = p\<lparr>stdout := stdout p @ [ConflictTarget new original]\<rparr>
        \<or> \<not> os_path_exists (disk p) new
          \<and> take (Suc (length (stdout p))) (stdout (execute_pair dry_run refuses (original, new) p))
              = stdout p @ [Renaming original new]
          \<and> (\<not> dry_run \<longrightarrow>
               (\<exists>ok. rename_calls (execute_pair dry_run refuses (original, new) p)
                       = rename_calls p @ [(original, new, ok)]))"
    using ne by (auto simp: execute_pair_def split: sum.splits)
  from m nm ne step execute_loop_no_skip[OF all] show ?thesis by blast
qed


theorem planned_name_differs_witness:
  "matches (str ''2023-05-01-09-00-00_photo_3.2_MB.jpg'')
   \<and> \<not> matches (str ''20230501_090000_photo.jpg'')
   \<and> str ''20230501_090000_photo.jpg'' \<noteq> str ''2023-05-01-09-00-00_photo_3.2_MB.jpg''
   \<and> (\<forall>x. SkippingCorrect x \<notin> set (stdout (execute_loop False (\<lambda>d src dst. False)
          [(str ''2023-05-01-09-00-00_photo_3.2_MB.jpg'', str ''20230501_090000_photo.jpg'')]
          \<lparr>disk = [str ''2023-05-01-09-00-00_photo_3.2_MB.jpg'' \<mapsto> Plain 1], stdout = [],
           rename_calls = []\<rparr>)))"
proof -
  let ?a = "str ''2023-05-01-09-00-00_photo_3.2_MB.jpg''"
  have m: "filter matches [?a] = [?a]" by code_simp
  have "build_plan [?a] [] = Inr ([(?a, str ''20230501_090000_photo.jpg'')], [])"
    by code_simp
  then have b: "build_plan (filter matches [?a]) []
      = Inr ([(?a, str ''20230501_090000_photo.jpg'')], [])" unfolding m .
  have i: "(?a, str ''20230501_090000_photo.jpg'') \<in> set [(?a, str ''20230501_090000_photo.jpg'')]"
    by simp
  from planned_name_differs[OF b i,
      of "\<lparr>disk = [?a \<mapsto> Plain 1], stdout = [], rename_calls = []\<rparr>" False "\<lambda>d src dst. False"]
  show ?thesis by auto
qed

section \<open>Running twice\<close>

text \<open>
  C4, as stated: after an apply run, a second apply run with no file added or removed in
  between performs no rename. It fails when the first run renames a group only in part.
  Below, two files share a timestamp and the name planned for the first one is taken: the
  first run reports the conflict and renames only the second file; in the second run the
  first file is alone in its group, is planned without a number, and is renamed.
\<close>

theorem second_run_counterexample:
  "os_listdir
      ([str ''2022-01-14-14-33-00_photo_12.683_MB.jpg'' \<mapsto> Plain 1,
         str ''2022-01-14-14-33-00_photo_9.1_MB.JPG'' \<mapsto> Plain 2,
         str ''20220114_143300_photo_1.jpg'' \<mapsto> Plain 3])
      [str ''2022-01-14-14-33-00_photo_12.683_MB.jpg'',
       str ''2022-01-14-14-33-00_photo_9.1_MB.JPG'',
       str ''20220114_143300_photo_1.jpg'']
   \<and> rename_files_with_deduplication False (\<lambda>d src dst. False)
      [str ''2022-01-14-14-33-00_photo_12.683_MB.jpg'',
       str ''2022-01-14-14-33-00_photo_9.1_MB.JPG'',
       str ''20220114_143300_photo_1.jpg'']
      \<lparr>disk = [str ''2022-01-14-14-33-00_photo_12.683_MB.jpg'' \<mapsto> Plain 1,
         str ''2022-01-14-14-33-00_photo_9.1_MB.JPG'' \<mapsto> Plain 2,
         str ''20220114_143300_photo_1.jpg'' \<mapsto> Plain 3],
       stdout = [], rename_calls = []\<rparr>
     = Inr
      \<lparr>disk = ([str ''2022-01-14-14-33-00_photo_12.683_MB.jpg'' \<mapsto> Plain 1,
         str ''2022-01-14-14-33-00_photo_9.1_MB.JPG'' \<mapsto> Plain 2,
         str ''20220114_143300_photo_1.jpg'' \<mapsto> Plain 3])
        (str ''2022-01-14-14-33-00_photo_9.1_MB.JPG'' := None,
         str ''20220114_143300_photo_2.JPG'' \<mapsto> Plain 2),
       stdout = [FoundFiles 2, Starting ''LIVE RENAME'',
         ConflictTarget (str ''20220114_143300_photo_1.jpg'') (str ''2022-01-14-14-33-00_photo_12.683_MB.jpg''),
         Renaming (str ''2022-01-14-14-33-00_photo_9.1_MB.JPG'') (str ''20220114_143300_photo_2.JPG''),
         Completed ''LIVE RENAME'' 2],
       rename_calls = [(str ''2022-01-14-14-33-00_photo_9.1_MB.JPG'', str ''20220114_143300_photo_2.JPG'', True)]\<rparr>
   \<and> os_listdir
      (([str ''2022-01-14-14-33-00_photo_12.683_MB.jpg'' \<mapsto> Plain 1,
         str ''2022-01-14-14-33-00_photo_9.1_MB.JPG'' \<mapsto> Plain 2,
         str ''20220114_143300_photo_1.jpg'' \<mapsto> Plain 3])
        (str ''2022-01-14-14-33-00_photo_9.1_MB.JPG'' := None,
         str ''20220114_143300_photo_2.JPG'' \<mapsto> Plain 2))
      [str ''2022-01-14-14-33-00_photo_12.683_MB.jpg'',
       str ''20220114_143300_photo_1.jpg'',
       str ''20220114_143300_photo_2.JPG'']
   \<and> rename_files_with_deduplication False (\<lambda>d src dst. False)
      [str ''2022-01-14-14-33-00_photo_12.683_MB.jpg'',
       str ''20220114_143300_photo_1.jpg'',
       str ''20220114_143300_photo_2.JPG'']
      \<lparr>disk = ([str ''2022-01-14-14-33-00_photo_12.683_MB.jpg'' \<mapsto> Plain 1,
         str ''2022-01-14-14-33-00_photo_9.1_MB.JPG'' \<mapsto> Plain 2,
         str ''20220114_143300_photo_1.jpg'' \<mapsto> Plain 3])
        (str ''2022-01-14-14-33-00_photo_9.1_MB.JPG'' := None,
         str ''20220114_143300_photo_2.JPG'' \<mapsto> Plain 2),
       stdout = [FoundFiles 2, Starting ''LIVE RENAME'',
         ConflictTarget (str ''20220114_143300_photo_1.jpg'') (str ''2022-01-14-14-33-00_photo_12.683_MB.jpg''),
         Renaming (str ''2022-01-14-14-33-00_photo_9.1_MB.JPG'') (str ''20220114_143300_photo_2.JPG''),
         Completed ''LIVE RENAME'' 2],
       rename_calls = [(str ''2022-01-14-14-33-00_photo_9.1_MB.JPG'', str ''20220114_143300_photo_2.JPG'', True)]\<rparr>
     = Inr
      \<lparr>disk = (([str ''2022-01-14-14-33-00_photo_12.683_MB.jpg'' \<mapsto> Plain 1,
         str ''2022-01-14-14-33-00_photo_9.1_MB.JPG'' \<mapsto> Plain 2,
         str ''20220114_143300_photo_1.jpg'' \<mapsto> Plain 3])
        (str ''2022-01-14-14-33-00_photo_9.1_MB.JPG'' := None,
         str ''20220114_143300_photo_2.JPG'' \<mapsto> Plain 2))
        (str ''2022-01-14-14-33-00_photo_12.683_MB.jpg'' := None,
         str ''20220114_143300_photo.jpg'' \<mapsto> Plain 1),
       stdout = [FoundFiles 2, Starting ''LIVE RENAME'',
         ConflictTarget (str ''20220114_143300_photo_1.jpg'') (str ''2022-01-14-14-33-00_photo_12.683_MB.jpg''),
         Renaming (str ''2022-01-14-14-33-00_photo_9.1_MB.JPG'') (str ''20220114_143300_photo_2.JPG''),
         Completed ''LIVE RENAME'' 2] @
        [FoundFiles 1, Starting ''LIVE RENAME'',
         Renaming (str ''2022-01-14-14-33-00_photo_12.683_MB.jpg'') (str ''20220114_143300_photo.jpg''),
         Completed ''LIVE RENAME'' 1],
       rename_calls = [(str ''2022-01-14-14-33-00_photo_9.1_MB.JPG'', str ''20220114_143300_photo_2.JPG'', True),
         (str ''2022-01-14-14-33-00_photo_12.683_MB.jpg'', str ''20220114_143300_photo.jpg'', True)]\<rparr>"
proof -
  have m1: "filter matches [str ''2022-01-14-14-33-00_photo_12.683_MB.jpg'',
       str ''2022-01-14-14-33-00_photo_9.1_MB.JPG'',
       str ''20220114_143300_photo_1.jpg''] = [str ''2022-01-14-14-33-00_photo_12.683_MB.jpg'', str ''2022-01-14-14-33-00_photo_9.1_MB.JPG'']"
    and m2: "filter matches [str ''2022-01-14-14-33-00_photo_12.683_MB.jpg'',
       str ''20220114_143300_photo_1.jpg'',
       str ''20220114_143300_photo_2.JPG''] = [str ''2022-01-14-14-33-00_photo_12.683_MB.jpg'']"
    by code_simp+
  have b1: "build_plan [str ''2022-01-14-14-33-00_photo_12.683_MB.jpg'', str ''2022-01-14-14-33-00_photo_9.1_MB.JPG''] [FoundFiles (Suc (Suc 0))]
      = Inr ([(str ''2022-01-14-14-33-00_photo_12.683_MB.jpg'', str ''20220114_143300_photo_1.jpg''), (str ''2022-01-14-14-33-00_photo_9.1_MB.JPG'', str ''20220114_143300_photo_2.JPG'')], [FoundFiles (Suc (Suc 0))])"
    by code_simp
  have b2: "\<And>out. build_plan [str ''2022-01-14-14-33-00_photo_12.683_MB.jpg''] out = Inr ([(str ''2022-01-14-14-33-00_photo_12.683_MB.jpg'', str ''20220114_143300_photo.jpg'')], out)"
    by (simp add: build_plan_def) code_simp
  have l1: "os_listdir
      ([str ''2022-01-14-14-33-00_photo_12.683_MB.jpg'' \<mapsto> Plain 1,
         str ''2022-01-14-14-33-00_photo_9.1_MB.JPG'' \<mapsto> Plain 2,
         str ''20220114_143300_photo_1.jpg'' \<mapsto> Plain 3])
      [str ''2022-01-14-14-33-00_photo_12.683_MB.jpg'',
       str ''2022-01-14-14-33-00_photo_9.1_MB.JPG'',
       str ''20220114_143300_photo_1.jpg'']"
    by (auto simp: os_listdir_def)
  have l2: "os_listdir
      (([str ''2022-01-14-14-33-00_photo_12.683_MB.jpg'' \<mapsto> Plain 1,
         str ''2022-01-14-14-33-00_photo_9.1_MB.JPG'' \<mapsto> Plain 2,
         str ''20220114_143300_photo_1.jpg'' \<mapsto> Plain 3])
        (str ''2022-01-14-14-33-00_photo_9.1_MB.JPG'' := None,
         str ''20220114_143300_photo_2.JPG'' \<mapsto> Plain 2))
      [str ''2022-01-14-14-33-00_photo_12.683_MB.jpg'',
       str ''20220114_143300_photo_1.jpg'',
       str ''20220114_143300_photo_2.JPG'']"
    by (auto simp: os_listdir_def split: if_splits)
  have r1: "rename_files_with_deduplication False (\<lambda>d src dst. False)
      [str ''2022-01-14-14-33-00_photo_12.683_MB.jpg'',
       str ''2022-01-14-14-33-00_photo_9.1_MB.JPG'',
       str ''20220114_143300_photo_1.jpg'']
      \<lparr>disk = [str ''2022-01-14-14-33-00_photo_12.683_MB.jpg'' \<mapsto> Plain 1,
         str ''2022-01-14-14-33-00_photo_9.1_MB.JPG'' \<mapsto> Plain 2,
         str ''20220114_143300_photo_1.jpg'' \<mapsto> Plain 3],
       stdout = [], rename_calls = []\<rparr>
     = Inr
      \<lparr>disk = ([str ''2022-01-14-14-33-00_photo_12.683_MB.jpg'' \<mapsto> Plain 1,
         str ''2022-01-14-14-33-00_photo_9.1_MB.JPG'' \<mapsto> Plain 2,
         str ''20220114_143300_photo_1.jpg'' \<mapsto> Plain 3])
        (str ''2022-01-14-14-33-00_photo_9.1_MB.JPG'' := None,
         str ''20220114_143300_photo_2.JPG'' \<mapsto> Plain 2),
       stdout = [FoundFiles 2, Starting ''LIVE RENAME'',
         ConflictTarget (str ''20220114_143300_photo_1.jpg'') (str ''2022-01-14-14-33-00_photo_12.683_MB.jpg''),
         Renaming (str ''2022-01-14-14-33-00_photo_9.1_MB.JPG'') (str ''20220114_143300_photo_2.JPG''),
         Completed ''LIVE RENAME'' 2],
       rename_calls = [(str ''2022-01-14-14-33-00_photo_9.1_MB.JPG'', str ''20220114_143300_photo_2.JPG'', True)]\<rparr>"
    unfolding rename_files_with_deduplication_def m1
    by (simp add: b1 execute_pair_def os_path_exists_def os_rename_def mode_name_def)
  have r2: "rename_files_with_deduplication False (\<lambda>d src dst. False)
      [str ''2022-01-14-14-33-00_photo_12.683_MB.jpg'',
       str ''20220114_143300_photo_1.jpg'',
       str ''20220114_143300_photo_2.JPG'']
      \<lparr>disk = ([str ''2022-01-14-14-33-00_photo_12.683_MB.jpg'' \<mapsto> Plain 1,
         str ''2022-01-14-14-33-00_photo_9.1_MB.JPG'' \<mapsto> Plain 2,
         str ''20220114_143300_photo_1.jpg'' \<mapsto> Plain 3])
        (str ''2022-01-14-14-33-00_photo_9.1_MB.JPG'' := None,
         str ''20220114_143300_photo_2.JPG'' \<mapsto> Plain 2),
       stdout = [FoundFiles 2, Starting ''LIVE RENAME'',
         ConflictTarget (str ''20220114_143300_photo_1.jpg'') (str ''2022-01-14-14-33-00_photo_12.683_MB.jpg''),
         Renaming (str ''2022-01-14-14-33-00_photo_9.1_MB.JPG'') (str ''20220114_143300_photo_2.JPG''),
         Completed ''LIVE RENAME'' 2],
       rename_calls = [(str ''2022-01-14-14-33-00_photo_9.1_MB.JPG'', str ''20220114_143300_photo_2.JPG'', True)]\<rparr>
     = Inr
      \<lparr>disk = (([str ''2022-01-14-14-33-00_photo_12.683_MB.jpg'' \<mapsto> Plain 1,
         str ''2022-01-14-14-33-00_photo_9.1_MB.JPG'' \<mapsto> Plain 2,
         str ''20220114_143300_photo_1.jpg'' \<mapsto> Plain 3])
        (str ''2022-01-14-14-33-00_photo_9.1_MB.JPG'' := None,
         str ''20220114_143300_photo_2.JPG'' \<mapsto> Plain 2))
        (str ''2022-01-14-14-33-00_photo_12.683_MB.jpg'' := None,
         str ''20220114_143300_photo.jpg'' \<mapsto> Plain 1),
       stdout = [FoundFiles 2, Starting ''LIVE RENAME'',
         ConflictTarget (str ''20220114_143300_photo_1.jpg'') (str ''2022-01-14-14-33-00_photo_12.683_MB.jpg''),
         Renaming (str ''2022-01-14-14-33-00_photo_9.1_MB.JPG'') (str ''20220114_143300_photo_2.JPG''),
         Completed ''LIVE RENAME'' 2] @
        [FoundFiles 1, Starting ''LIVE RENAME'',
         Renaming (str ''2022-01-14-14-33-00_photo_12.683_MB.jpg'') (str ''20220114_143300_photo.jpg''),
         Completed ''LIVE RENAME'' 1],
       rename_calls = [(str ''2022-01-14-14-33-00_photo_9.1_MB.JPG'', str ''20220114_143300_photo_2.JPG'', True),
         (str ''2022-01-14-14-33-00_photo_12.683_MB.jpg'', str ''20220114_143300_photo.jpg'', True)]\<rparr>"
    unfolding rename_files_with_deduplication_def m2
    by (simp add: b2 execute_pair_def os_path_exists_def os_rename_def mode_name_def)
  from l1 r1 l2 r2 show ?thesis by blast
qed

text \<open>
  C4, amended: if no group was renamed only in part by the first apply run, that is, every
  matching file still in the directory after it still has its whole group there, then a
  second apply run, with no file added or removed in between, performs no rename: it leaves
  the directory as it is and every call of \<open>os.rename\<close> it makes fails. The claim's own
  proviso, that filesystem operations behave deterministically, is the hypothesis that a
  rename which failed in the first run is refused again in the second. Pairs that the first
  run reported as conflicts or as failures are covered: the first run may have skipped or
  failed any number of them.
\<close>

theorem second_run_renames_nothing:
  assumes run1: "rename_files_with_deduplication False refuses files p = Inr p1"
    and ls1: "os_listdir (disk p) files"
    and ls2: "os_listdir (disk p1) files'"
    and whole: "\<forall>f\<in>set files'. matches f \<longrightarrow>
                  spec_group files' (base_key f) = spec_group files (base_key f)"
    and again: "\<forall>original new. (original, new, False) \<in> set (rename_calls p1) \<longrightarrow>
                  refuses' (disk p1) original new"
  shows "\<exists>p2. rename_files_with_deduplication False refuses' files' p1 = Inr p2
     \<and> disk p2 = disk p1
     \<and> renames_done (rename_calls p2) = renames_done (rename_calls p1)"
proof (cases "filter matches files' = []")
  case True
  then show ?thesis by (simp add: rename_files_with_deduplication_def)
next
  case M2: False
  have d1: "distinct files" and d2: "distinct files'"
    using ls1 ls2 by (simp_all add: os_listdir_def)
  show ?thesis
  proof (cases "filter matches files = []")
    case True
    with run1 have "disk p1 = disk p" by (auto simp: rename_files_with_deduplication_def)
    with ls1 ls2 have "set files' = set files" by (simp add: os_listdir_def)
    with True have "filter matches files' = []" by (simp add: filter_empty_conv)
    with M2 show ?thesis by simp
  next
    case M1: False
    let ?out1 = "stdout p @ [FoundFiles (length (filter matches files))]"
    from build_plan_total[of files ?out1] obtain P1 where
      b1: "build_plan (filter matches files) ?out1 = Inr (P1, ?out1)" by blast
    let ?p0 = "p\<lparr>stdout := ?out1 @ [Starting (mode_name False)]\<rparr>"
    let ?pl = "execute_loop False refuses P1 ?p0"
    from run1 M1 b1 have p1: "p1 = ?pl\<lparr>stdout := stdout ?pl @
          [Completed (mode_name False) (length P1)]\<rparr>"
      by (simp add: rename_files_with_deduplication_def Let_def)
    have dk: "disk p1 = disk ?pl" and rc: "rename_calls p1 = rename_calls ?pl"
      by (subst p1, simp)+
    have sh1: "\<forall>(original, new)\<in>set P1.
             original \<noteq> new \<and> matches original \<and> \<not> matches new"
      using plan_pairs_differ[OF b1] by blast
    let ?out2 = "stdout p1 @ [FoundFiles (length (filter matches files'))]"
    from build_plan_total[of files' ?out2] obtain P2 where
      b2: "build_plan (filter matches files') ?out2 = Inr (P2, ?out2)" by blast
    let ?q0 = "p1\<lparr>stdout := ?out2 @ [Starting (mode_name False)]\<rparr>"
    let ?ql = "execute_loop False refuses' P2 ?q0"
    have run2: "rename_files_with_deduplication False refuses' files' p1
        = Inr (?ql\<lparr>stdout := stdout ?ql @ [Completed (mode_name False) (length P2)]\<rparr>)"
      using M2 b2 by (simp add: rename_files_with_deduplication_def Let_def)
    have idle: "\<forall>(original, new)\<in>set P2.
             original = new \<or> os_path_exists (disk ?q0) new \<or> refuses' (disk ?q0) original new
             \<or> disk ?q0 original = None"
    proof
      fix pair assume mem: "pair \<in> set P2"
      obtain original new where pair: "pair = (original, new)" by (cases pair)
      from mem pair have in2: "(original, new) \<in> set P2" by simp
      from plan_pairs_differ[OF b2 in2] have m: "matches original" "original \<in> set files'"
        by auto
      from whole m have "spec_group files' (base_key original) = spec_group files (base_key original)"
        by blast
      from same_group_same_name[OF d1 d2 b1 b2 in2 this] have in1: "(original, new) \<in> set P1" .
      from m(2) ls2 have "disk p1 original \<noteq> None"
        by (auto simp: os_listdir_def)
      then have "disk ?pl original \<noteq> None" unfolding dk .
      from execute_loop_left_in_place[OF sh1 in1 this]
      have "os_path_exists (disk p1) new \<or> (original, new, False) \<in> set (rename_calls p1)"
        unfolding dk rc .
      with again have "os_path_exists (disk p1) new \<or> refuses' (disk p1) original new"
        by blast
      then show "case pair of (original, new) \<Rightarrow>
             original = new \<or> os_path_exists (disk ?q0) new \<or> refuses' (disk ?q0) original new
             \<or> disk ?q0 original = None"
        by (auto simp: pair)
    qed
    from execute_loop_idle[of P2 ?q0 refuses', OF idle] run2 show ?thesis by simp
  qed
qed

theorem second_run_renames_nothing_witness:
  "rename_files_with_deduplication False (\<lambda>d src dst. src = str ''2022-01-14-14-33-00_photo_9.1_MB.JPG'')
      [str ''2023-05-01-09-00-00_photo_3.2_MB.jpg'',
       str ''20230501_090000_photo.jpg'',
       str ''2022-01-14-14-33-00_photo_9.1_MB.JPG'']
      \<lparr>disk = [str ''2023-05-01-09-00-00_photo_3.2_MB.jpg'' \<mapsto> Plain 1,
         str ''20230501_090000_photo.jpg'' \<mapsto> Plain 2,
         str ''2022-01-14-14-33-00_photo_9.1_MB.JPG'' \<mapsto> Plain 3],
       stdout = [], rename_calls = []\<rparr>
     = Inr
      \<lparr>disk = [str ''2023-05-01-09-00-00_photo_3.2_MB.jpg'' \<mapsto> Plain 1,
         str ''20230501_090000_photo.jpg'' \<mapsto> Plain 2,
         str ''2022-01-14-14-33-00_photo_9.1_MB.JPG'' \<mapsto> Plain 3],
       stdout = [FoundFiles 2, Starting ''LIVE RENAME'',
         ConflictTarget (str ''20230501_090000_photo.jpg'') (str ''2023-05-01-09-00-00_photo_3.2_MB.jpg''),
         Renaming (str ''2022-01-14-14-33-00_photo_9.1_MB.JPG'') (str ''20220114_143300_photo.JPG''),
         FailedRename (str ''2022-01-14-14-33-00_photo_9.1_MB.JPG'') (str ''20220114_143300_photo.JPG'') PermissionError,
         Completed ''LIVE RENAME'' 2],
       rename_calls = [(str ''2022-01-14-14-33-00_photo_9.1_MB.JPG'', str ''20220114_143300_photo.JPG'', False)]\<rparr>
   \<and> (\<exists>p2. rename_files_with_deduplication False (\<lambda>d src dst. src = str ''2022-01-14-14-33-00_photo_9.1_MB.JPG'')
      [str ''2022-01-14-14-33-00_photo_9.1_MB.JPG'',
       str ''20230501_090000_photo.jpg'',
       str ''2023-05-01-09-00-00_photo_3.2_MB.jpg'']
      \<lparr>disk = [str ''2023-05-01-09-00-00_photo_3.2_MB.jpg'' \<mapsto> Plain 1,
         str ''20230501_090000_photo.jpg'' \<mapsto> Plain 2,
         str ''2022-01-14-14-33-00_photo_9.1_MB.JPG'' \<mapsto> Plain 3],
       stdout = [FoundFiles 2, Starting ''LIVE RENAME'',
         ConflictTarget (str ''20230501_090000_photo.jpg'') (str ''2023-05-01-09-00-00_photo_3.2_MB.jpg''),
         Renaming (str ''2022-01-14-14-33-00_photo_9.1_MB.JPG'') (str ''20220114_143300_photo.JPG''),
         FailedRename (str ''2022-01-14-14-33-00_photo_9.1_MB.JPG'') (str ''20220114_143300_photo.JPG'') PermissionError,
         Completed ''LIVE RENAME'' 2],
       rename_calls = [(str ''2022-01-14-14-33-00_photo_9.1_MB.JPG'', str ''20220114_143300_photo.JPG'', False)]\<rparr> = Inr p2
     \<and> disk p2 = [str ''2023-05-01-09-00-00_photo_3.2_MB.jpg'' \<mapsto> Plain 1,
         str ''20230501_090000_photo.jpg'' \<mapsto> Plain 2,
         str ''2022-01-14-14-33-00_photo_9.1_MB.JPG'' \<mapsto> Plain 3]
     \<and> renames_done (rename_calls p2) = [])"
proof -
  let ?files = "[str ''2023-05-01-09-00-00_photo_3.2_MB.jpg'',
       str ''20230501_090000_photo.jpg'',
       str ''2022-01-14-14-33-00_photo_9.1_MB.JPG'']"
  let ?files' = "[str ''2022-01-14-14-33-00_photo_9.1_MB.JPG'',
       str ''20230501_090000_photo.jpg'',
       str ''2023-05-01-09-00-00_photo_3.2_MB.jpg'']"
  let ?p1 = "\<lparr>disk = [str ''2023-05-01-09-00-00_photo_3.2_MB.jpg'' \<mapsto> Plain 1,
         str ''20230501_090000_photo.jpg'' \<mapsto> Plain 2,
         str ''2022-01-14-14-33-00_photo_9.1_MB.JPG'' \<mapsto> Plain 3],
       stdout = [FoundFiles 2, Starting ''LIVE RENAME'',
         ConflictTarget (str ''20230501_090000_photo.jpg'') (str ''2023-05-01-09-00-00_photo_3.2_MB.jpg''),
         Renaming (str ''2022-01-14-14-33-00_photo_9.1_MB.JPG'') (str ''20220114_143300_photo.JPG''),
         FailedRename (str ''2022-01-14-14-33-00_photo_9.1_MB.JPG'') (str ''20220114_143300_photo.JPG'') PermissionError,
         Completed ''LIVE RENAME'' 2],
       rename_calls = [(str ''2022-01-14-14-33-00_photo_9.1_MB.JPG'', str ''20220114_143300_photo.JPG'', False)]\<rparr>"
  have m1: "filter matches ?files = [str ''2023-05-01-09-00-00_photo_3.2_MB.jpg'', str ''2022-01-14-14-33-00_photo_9.1_MB.JPG'']"
    by code_simp
  have b1: "build_plan [str ''2023-05-01-09-00-00_photo_3.2_MB.jpg'', str ''2022-01-14-14-33-00_photo_9.1_MB.JPG''] [FoundFiles (Suc (Suc 0))]
      = Inr ([(str ''2023-05-01-09-00-00_photo_3.2_MB.jpg'', str ''20230501_090000_photo.jpg''), (str ''2022-01-14-14-33-00_photo_9.1_MB.JPG'', str ''20220114_143300_photo.JPG'')], [FoundFiles (Suc (Suc 0))])"
    by code_simp
  have r1: "rename_files_with_deduplication False (\<lambda>d src dst. src = str ''2022-01-14-14-33-00_photo_9.1_MB.JPG'') ?files
      \<lparr>disk = [str ''2023-05-01-09-00-00_photo_3.2_MB.jpg'' \<mapsto> Plain 1,
         str ''20230501_090000_photo.jpg'' \<mapsto> Plain 2,
         str ''2022-01-14-14-33-00_photo_9.1_MB.JPG'' \<mapsto> Plain 3],
       stdout = [], rename_calls = []\<rparr> = Inr ?p1"
    unfolding rename_files_with_deduplication_def m1
    by (simp add: b1 execute_pair_def os_path_exists_def os_rename_def mode_name_def)
  have l1: "os_listdir (disk \<lparr>disk = [str ''2023-05-01-09-00-00_photo_3.2_MB.jpg'' \<mapsto> Plain 1,
         str ''20230501_090000_photo.jpg'' \<mapsto> Plain 2,
         str ''2022-01-14-14-33-00_photo_9.1_MB.JPG'' \<mapsto> Plain 3],
       stdout = [], rename_calls = []\<rparr>) ?files"
    by (auto simp: os_listdir_def)
  have l2: "os_listdir (disk ?p1) ?files'"
    by (auto simp: os_listdir_def)
  have t: "\<not> matches (str ''20230501_090000_photo.jpg'')" by code_simp
  have ga: "spec_group ?files' (base_key (str ''2023-05-01-09-00-00_photo_3.2_MB.jpg'')) = spec_group ?files (base_key (str ''2023-05-01-09-00-00_photo_3.2_MB.jpg''))"
    and gc: "spec_group ?files' (base_key (str ''2022-01-14-14-33-00_photo_9.1_MB.JPG'')) = spec_group ?files (base_key (str ''2022-01-14-14-33-00_photo_9.1_MB.JPG''))"
    by code_simp+
  have whole: "\<forall>f\<in>set ?files'. matches f \<longrightarrow>
      spec_group ?files' (base_key f) = spec_group ?files (base_key f)"
    using t ga gc by simp
  have again: "\<forall>original new. (original, new, False) \<in> set (rename_calls ?p1) \<longrightarrow>
      (original = str ''2022-01-14-14-33-00_photo_9.1_MB.JPG'')"
    by simp
  from second_run_renames_nothing[OF r1 l1 l2 whole, of "(\<lambda>d src dst. src = str ''2022-01-14-14-33-00_photo_9.1_MB.JPG'')", OF again]
  have "\<exists>p2. rename_files_with_deduplication False (\<lambda>d src dst. src = str ''2022-01-14-14-33-00_photo_9.1_MB.JPG'') ?files' ?p1 = Inr p2
     \<and> disk p2 = disk ?p1
     \<and> renames_done (rename_calls p2) = renames_done (rename_calls ?p1)" .
  then have "\<exists>p2. rename_files_with_deduplication False (\<lambda>d src dst. src = str ''2022-01-14-14-33-00_photo_9.1_MB.JPG'') ?files' ?p1 = Inr p2
     \<and> disk p2 = [str ''2023-05-01-09-00-00_photo_3.2_MB.jpg'' \<mapsto> Plain 1,
         str ''20230501_090000_photo.jpg'' \<mapsto> Plain 2,
         str ''2022-01-14-14-33-00_photo_9.1_MB.JPG'' \<mapsto> Plain 3]
     \<and> renames_done (rename_calls p2) = []"
    by (simp add: renames_done_def)
  with r1 show ?thesis by blast
qed

end
